theory Spec2Isabelle
  imports Main "HOL-Library.Multiset"
begin

section \<open>Python strings\<close>

text \<open>
  A Python \<open>str\<close> is modelled as a \<open>string\<close> whose characters are the code points
  U+0000 to U+00FF (the range of an HTTP header value as the \<open>requests\<close> library decodes
  it). Whitespace, case folding and \<open>repr\<close> follow Python 3 on that range.
\<close>

definition isspace :: "char \<Rightarrow> bool" where
  "isspace c = (let n = (of_char c :: nat) in
     (9 \<le> n \<and> n \<le> 13) \<or> (28 \<le> n \<and> n \<le> 32) \<or> n = 133 \<or> n = 160)"

text \<open>\<open>s.strip()\<close>\<close>

definition strip :: "string \<Rightarrow> string" where
  "strip s = rev (dropWhile isspace (rev (dropWhile isspace s)))"

text \<open>\<open>s.lower()\<close>\<close>

definition lower_char :: "char \<Rightarrow> char" where
  "lower_char c = (let n = (of_char c :: nat) in
     if (65 \<le> n \<and> n \<le> 90) \<or> (192 \<le> n \<and> n \<le> 222 \<and> n \<noteq> 215)
     then char_of (n + 32) else c)"

definition lower :: "string \<Rightarrow> string" where
  "lower s = map lower_char s"

text \<open>\<open>s.startswith(p)\<close> and \<open>s.endswith(p)\<close>\<close>

definition startswith :: "string \<Rightarrow> string \<Rightarrow> bool" where
  "startswith s p = (take (length p) s = p)"

definition endswith :: "string \<Rightarrow> string \<Rightarrow> bool" where
  "endswith s p = (length p \<le> length s \<and> drop (length s - length p) s = p)"

text \<open>
  \<open>s.replace(old, new)\<close> for a non-empty \<open>old\<close>: the occurrences are replaced from
  left to right, without overlap.
\<close>

fun replace :: "string \<Rightarrow> string \<Rightarrow> string \<Rightarrow> string" where
  "replace old new [] = []"
| "replace old new (c # cs) =
     (if old \<noteq> [] \<and> startswith (c # cs) old
      then new @ replace old new (drop (length old) (c # cs))
      else c # replace old new cs)"

text \<open>\<open>sub in s\<close>: \<open>sub\<close> occurs in \<open>s\<close>.\<close>

fun contains :: "string \<Rightarrow> string \<Rightarrow> bool" where
  "contains [] sub = (sub = [])"
| "contains (c # cs) sub = (startswith (c # cs) sub \<or> contains cs sub)"

text \<open>\<open>s.rsplit(sep, 1)[-1]\<close>: what follows the last \<open>sep\<close>, all of \<open>s\<close> without one.\<close>

definition rsplit_last :: "char \<Rightarrow> string \<Rightarrow> string" where
  "rsplit_last sep s = rev (takeWhile (\<lambda>c. c \<noteq> sep) (rev s))"

text \<open>\<open>s.split(sep, 1)[0]\<close>: what precedes the first \<open>sep\<close>, all of \<open>s\<close> without one.\<close>

definition split_first :: "char \<Rightarrow> string \<Rightarrow> string" where
  "split_first sep s = takeWhile (\<lambda>c. c \<noteq> sep) s"

text \<open>\<open>s.partition(sep)\<close>, without the middle component.\<close>

definition partition_str :: "char \<Rightarrow> string \<Rightarrow> string \<times> string" where
  "partition_str sep s =
     (takeWhile (\<lambda>c. c \<noteq> sep) s, drop 1 (dropWhile (\<lambda>c. c \<noteq> sep) s))"

text \<open>\<open>s.rpartition(sep)\<close>, without the middle component: \<open>('', s)\<close> without a \<open>sep\<close>.\<close>

definition rpartition :: "char \<Rightarrow> string \<Rightarrow> string \<times> string" where
  "rpartition sep s =
     (rev (drop 1 (dropWhile (\<lambda>c. c \<noteq> sep) (rev s))), rev (takeWhile (\<lambda>c. c \<noteq> sep) (rev s)))"

text \<open>\<open>s.lstrip('.')\<close> and \<open>s.rstrip('/')\<close>\<close>

definition lstrip_char :: "char \<Rightarrow> string \<Rightarrow> string" where
  "lstrip_char c s = dropWhile (\<lambda>x. x = c) s"

definition rstrip_char :: "char \<Rightarrow> string \<Rightarrow> string" where
  "rstrip_char c s = rev (dropWhile (\<lambda>x. x = c) (rev s))"

text \<open>\<open>str(i)\<close> of a natural number.\<close>

definition digit_char :: "nat \<Rightarrow> char" where
  "digit_char d = ''0123456789abcdef'' ! d"

function str_nat :: "nat \<Rightarrow> string" where
  "str_nat n = (if n < 10 then [digit_char n] else str_nat (n div 10) @ [digit_char (n mod 10)])"
  by pat_completeness auto
termination
  by (relation "measure id") auto

declare str_nat.simps [simp del]

text \<open>
  \<open>repr(s)\<close> of a Python 3 string: single quotes unless the string holds a single quote
  and no double quote; the backslash and the chosen quote are escaped, tab, newline and
  carriage return have their letters, any other non-printable character is \<open>\xNN\<close>.
\<close>

definition isprintable :: "char \<Rightarrow> bool" where
  "isprintable c = (let n = (of_char c :: nat) in
     (32 \<le> n \<and> n \<le> 126) \<or> (161 \<le> n \<and> n \<noteq> 173))"

definition repr_char :: "char \<Rightarrow> char \<Rightarrow> string" where
  "repr_char quote c =
     (if c = quote \<or> c = CHR 0x5C then [CHR 0x5C, c]
      else if c = CHR 0x09 then [CHR 0x5C, CHR ''t'']
      else if c = CHR 0x0A then [CHR 0x5C, CHR ''n'']
      else if c = CHR 0x0D then [CHR 0x5C, CHR ''r'']
      else if isprintable c then [c]
      else [CHR 0x5C, CHR ''x'', digit_char (of_char c div 16), digit_char (of_char c mod 16)])"

definition repr :: "string \<Rightarrow> string" where
  "repr s =
     (let quote = (if CHR 0x27 \<in> set s \<and> CHR 0x22 \<notin> set s then CHR 0x22 else CHR 0x27)
      in [quote] @ concat (map (repr_char quote) s) @ [quote])"

section \<open>Paths (\<open>posixpath\<close>)\<close>

definition basename :: "string \<Rightarrow> string" where
  "basename p = rsplit_last CHR ''/'' p"

definition dirname :: "string \<Rightarrow> string" where
  "dirname p =
     (let head = rev (dropWhile (\<lambda>c. c \<noteq> CHR ''/'') (rev p))
      in if head \<noteq> [] \<and> head \<noteq> replicate (length head) CHR ''/''
         then rstrip_char CHR ''/'' head else head)"

definition path_join :: "string \<Rightarrow> string \<Rightarrow> string" where
  "path_join a b =
     (if startswith b ''/'' then b
      else if a = [] \<or> endswith a ''/'' then a @ b
      else a @ ''/'' @ b)"

section \<open>Errors, responses and the world\<close>

datatype error =
    ValueError "string list"  \<comment> \<open>the arguments of the exception\<close>
  | HTTPError nat  \<comment> \<open>\<open>raise_for_status\<close>, with the status code\<close>
  | RequestException string  \<comment> \<open>raised by \<open>Session.get\<close>: connection failure and the like\<close>
  | IOError string
  | AssertionError
  | LibraryError string  \<comment> \<open>raised inside \<open>unquote_unreserved\<close> or \<open>sanitize_filename\<close>\<close>

text \<open>
  \<open>rfc6266.parse_requests_response(response)\<close> either raises, or gives a
  \<open>ContentDisposition\<close> whose \<open>filename_unsafe\<close> is a string (the header's filename,
  or the last segment of the response's URL without one).
\<close>

datatype disposition =
    ParseFailed string  \<comment> \<open>the \<open>repr\<close> of the exception\<close>
  | Parsed string  \<comment> \<open>\<open>filename_unsafe\<close>\<close>

record response =
  resp_url :: string
  status_code :: nat
  content_type :: "string option"  \<comment> \<open>the \<open>content-type\<close> header, if any\<close>
  disposition :: disposition
  raw :: string  \<comment> \<open>the body\<close>

datatype log_record = Debug string | Warning string | Error error

text \<open>
  The world the program runs in: the network (what a GET of a URL gives), the file system
  (regular files with their content, directories, and the lines of readable text files),
  the responses closed so far, the calls made to the logger, and the object store
  (the next fresh object, and the \<open>session\<close> attribute of each \<open>threading.local\<close> object
  in each thread). Paths are compared as strings.
\<close>

record world =
  http :: "string \<Rightarrow> error + response"
  files :: "string \<rightharpoonup> string"
  dirs :: "string set"
  text_lines :: "string \<rightharpoonup> string list"
  closed :: "string list"
  log :: "log_record list"
  next_obj :: nat
  thread_attrs :: "nat \<times> nat \<rightharpoonup> nat"

definition logger :: "log_record \<Rightarrow> world \<Rightarrow> world" where
  "logger r w = w\<lparr>log := log w @ [r]\<rparr>"

definition path_exists :: "world \<Rightarrow> string \<Rightarrow> bool" where
  "path_exists w p = (files w p \<noteq> None \<or> p \<in> dirs w)"

text \<open>
  The two helpers of other libraries that only rewrite a name,
  \<open>requests.utils.unquote_unreserved\<close> and
  \<open>pathvalidate.sanitize_filename(_, replacement_text='_')\<close>, are parameters.
\<close>

record libs =
  unquote_unreserved :: "string \<Rightarrow> error + string"
  sanitize_filename :: "string \<Rightarrow> error + string"

section \<open>\<open>rename_if_exists\<close>\<close>

text \<open>\<open>path.join(dirname, '{}_{}.{}'.format(basename, i, ext))\<close>\<close>

definition numbered :: "string \<Rightarrow> nat \<Rightarrow> string" where
  "numbered file_path i =
     (let (base, ext) = rpartition CHR ''.'' (basename file_path)
      in path_join (dirname file_path) (base @ ''_'' @ str_nat i @ ''.'' @ ext))"

text \<open>
  The loop \<open>for i in range(1, 10000)\<close>, from index \<open>i\<close> with \<open>n\<close> iterations left: the
  path assigned last, and whether the loop ended by \<open>break\<close>.
\<close>

fun rename_loop :: "world \<Rightarrow> (nat \<Rightarrow> string) \<Rightarrow> string \<Rightarrow> nat \<Rightarrow> nat \<Rightarrow> string \<times> bool" where
  "rename_loop w cand file_path i 0 = (file_path, False)"
| "rename_loop w cand file_path i (Suc n) =
     (let file_path' = cand i
      in if \<not> path_exists w file_path' then (file_path', True)
         else rename_loop w cand file_path' (Suc i) n)"

definition rename_if_exists :: "string \<Rightarrow> world \<Rightarrow> string \<times> world" where
  "rename_if_exists file_path w =
     (if \<not> path_exists w file_path then (file_path, w)
      else let (file_path', broke) = rename_loop w (numbered file_path) file_path 1 9999
           in if broke then (file_path', w)
              else (file_path', logger (Warning (''Failed to rename '' @ repr file_path')) w))"

section \<open>\<open>get_filename\<close>\<close>

text \<open>
  \<open>ContentDisposition.filename_sanitized(extension)\<close> of the rfc6266 library, with its
  default file name \<open>file\<close>: the assertions on the extension, the base name without
  leading dots, and the extension appended unless the name ends with it.
\<close>

definition filename_sanitized :: "string \<Rightarrow> string \<Rightarrow> error + string" where
  "filename_sanitized filename_unsafe extension =
     (if extension = [] \<or> hd extension = CHR ''.'' then Inl AssertionError
      else let ext = ''.'' @ extension;
               fname0 = lstrip_char CHR ''.'' (basename (basename filename_unsafe));
               fname = (if fname0 = [] then ''file'' else fname0)
           in Inr (if \<not> endswith fname ext then fname @ ext else fname))"

definition safe_aliases :: "string \<Rightarrow> string list" where
  "safe_aliases extension =
     [lower extension,
      replace ''jpeg'' ''jpg'' (lower extension),
      replace ''jpg'' ''jpeg'' (lower extension)]"

definition get_filename :: "libs \<Rightarrow> response \<Rightarrow> string \<Rightarrow> world \<Rightarrow> (error + string) \<times> world" where
  "get_filename L response expected_extension w =
     (case disposition response of
        ParseFailed err \<Rightarrow>
          (let w1 = logger (Warning (''Failed to parse content_disposition header from ''
                      @ repr (resp_url response) @ '', error: '' @ err)) w
           in case unquote_unreserved L (resp_url response) of
                Inl e \<Rightarrow> (Inl e, w1)
              | Inr u \<Rightarrow>
                  (let base = rsplit_last CHR ''/'' u
                   in (Inr ((if base = [] then ''file'' else base) @ ''.'' @ expected_extension), w1)))
      | Parsed filename_unsafe \<Rightarrow>
          (let extension = rsplit_last CHR ''.'' filename_unsafe;
               expected_extension' =
                 (if expected_extension \<in> set (safe_aliases extension) then extension
                  else expected_extension)
           in (filename_sanitized filename_unsafe expected_extension', w)))"

section \<open>\<open>get_session\<close>\<close>

text \<open>
  Objects are numbered as they are created. \<open>threading.local()\<close> and
  \<open>requests.Session()\<close> each create a fresh object; a new \<open>threading.local\<close> object has
  no attribute in any thread.
\<close>

definition new_object :: "world \<Rightarrow> nat \<times> world" where
  "new_object w = (next_obj w, w\<lparr>next_obj := Suc (next_obj w)\<rparr>)"

definition get_session :: "nat \<Rightarrow> world \<Rightarrow> nat \<times> world" where
  "get_session thread w =
     (let (local, w1) = new_object w
      in case thread_attrs w1 (local, thread) of
           Some session \<Rightarrow> (session, w1)
         | None \<Rightarrow>
             (let (session, w2) = new_object w1
              in (session, w2\<lparr>thread_attrs := (thread_attrs w2)((local, thread) \<mapsto> session)\<rparr>)))"

text \<open>No attribute is stored for an object that does not exist yet.\<close>

definition store_ok :: "world \<Rightarrow> bool" where
  "store_ok w = (\<forall>l t. thread_attrs w (l, t) \<noteq> None \<longrightarrow> l < next_obj w)"

section \<open>\<open>download_image\<close>\<close>

definition raise_for_status :: "response \<Rightarrow> error + unit" where
  "raise_for_status r =
     (if 400 \<le> status_code r \<and> status_code r < 600 then Inl (HTTPError (status_code r))
      else Inr ())"

text \<open>
  \<open>open(file_path, 'wb')\<close> fails on a directory and in a directory that does not exist
  (the empty directory name is the current directory).
\<close>

definition open_wb :: "string \<Rightarrow> world \<Rightarrow> error + unit" where
  "open_wb file_path w =
     (if file_path \<in> dirs w then Inl (IOError file_path)
      else if dirname file_path \<noteq> [] \<and> dirname file_path \<notin> dirs w then Inl (IOError file_path)
      else Inr ())"

definition declared_type :: "response \<Rightarrow> string" where
  "declared_type r =
     split_first CHR '';'' (case content_type r of None \<Rightarrow> [] | Some h \<Rightarrow> h)"

definition download_image ::
  "libs \<Rightarrow> nat \<Rightarrow> string \<Rightarrow> string \<Rightarrow> world \<Rightarrow> (error + string) \<times> world" where
  "download_image L thread url out_dir w =
     (let w1 = logger (Debug (''Requesting '' @ repr url)) w;
          (session, w2) = get_session thread w1
      in case http w2 url of
           Inl e \<Rightarrow> (Inl e, w2)
         | Inr r \<Rightarrow>
            (case raise_for_status r of
               Inl e \<Rightarrow> (Inl e, w2)
             | Inr _ \<Rightarrow>
                (let ctype = declared_type r;
                     (media_type, subtype) = partition_str CHR ''/'' ctype
                 in if media_type \<noteq> ''image'' \<or> subtype = []
                    then (Inl (ValueError [''Invalid image type '' @ repr ctype @ '' from '' @ repr url]),
                          w2\<lparr>closed := closed w2 @ [url]\<rparr>)
                    else
                      (case get_filename L r subtype w2 of
                         (Inl e, w3) \<Rightarrow> (Inl e, w3)
                       | (Inr filename0, w3) \<Rightarrow>
                          (case sanitize_filename L filename0 of
                             Inl e \<Rightarrow> (Inl e, w3)
                           | Inr filename \<Rightarrow>
                              (let (file_path, w4) = rename_if_exists (path_join out_dir filename) w3
                               in case open_wb file_path w4 of
                                    Inl e \<Rightarrow> (Inl e, w4)
                                  | Inr _ \<Rightarrow>
                                     (let w5 = w4\<lparr>files := (files w4)(file_path \<mapsto> raw r)\<rparr>;
                                          w6 = logger (Debug (''Saved '' @ repr (basename file_path))) w5
                                      in (Inr filename, w6))))))))"

section \<open>\<open>download_manager\<close>\<close>

record DownloadStats =
  success :: int
  failed :: int
  total :: int

datatype url_source = FileObject "string list" | FileName string

text \<open>
  \<open>url_file\<close> is a file-like object, given by the lines its iteration yields, or the
  name of a file, which \<open>open\<close> has to find.
\<close>

definition open_url_file :: "url_source \<Rightarrow> world \<Rightarrow> error + string list" where
  "open_url_file url_file w =
     (case url_file of
        FileObject ls \<Rightarrow> Inr ls
      | FileName name \<Rightarrow> (case text_lines w name of None \<Rightarrow> Inl (IOError name) | Some ls \<Rightarrow> Inr ls))"

text \<open>
  The constructor of \<open>concurrent.futures.ThreadPoolExecutor\<close> (Python 3.5 and later,
  \<open>futures\<close> 3.1 and later for Python 2): without a value the pool takes the default of
  the platform, and a value that is not positive is refused.
\<close>

definition ThreadPoolExecutor :: "nat \<Rightarrow> int option \<Rightarrow> error + nat" where
  "ThreadPoolExecutor default_workers max_workers =
     (case max_workers of
        None \<Rightarrow> Inr default_workers
      | Some n \<Rightarrow>
          if n \<le> 0 then Inl (ValueError [''max_workers must be greater than 0''])
          else Inr (nat n))"

text \<open>
  The tasks are run one after the other in the order of submission, which is the
  schedule of a pool of one worker; \<open>worker i\<close> is the thread that runs task \<open>i\<close>. The
  outcome of a task is what its future holds: the exception or the returned name.
  \<open>dl\<close> is the function bound to the name \<open>download_image\<close> when the manager runs.
\<close>

type_synonym task = "nat \<Rightarrow> string \<Rightarrow> string \<Rightarrow> world \<Rightarrow> (error + string) \<times> world"

fun submit_all ::
  "task \<Rightarrow> (nat \<Rightarrow> nat) \<Rightarrow> string \<Rightarrow> nat \<Rightarrow> string list \<Rightarrow> world \<Rightarrow> (error + string) list \<times> world" where
  "submit_all dl worker out_dir i [] w = ([], w)"
| "submit_all dl worker out_dir i (url # urls) w =
     (let (f, w1) = dl (worker i) url out_dir w;
          (fs, w2) = submit_all dl worker out_dir (Suc i) urls w1
      in (f # fs, w2))"

text \<open>The loop over the completed futures.\<close>

fun count_errors :: "(error + string) list \<Rightarrow> int \<Rightarrow> world \<Rightarrow> int \<times> world" where
  "count_errors [] error_count w = (error_count, w)"
| "count_errors (Inl err # fs) error_count w =
     count_errors fs (error_count + 1) (logger (Error err) w)"
| "count_errors (Inr name # fs) error_count w = count_errors fs error_count w"

definition download_manager ::
  "task \<Rightarrow> (nat \<Rightarrow> nat) \<Rightarrow> nat \<Rightarrow> nat \<Rightarrow> url_source \<Rightarrow> string \<Rightarrow> int option \<Rightarrow> world
     \<Rightarrow> (error + DownloadStats) \<times> world" where
  "download_manager dl worker py_major default_workers url_file out_dir max_workers w =
     (case open_url_file url_file w of
        Inl e \<Rightarrow> (Inl e, w)
      | Inr ls \<Rightarrow>
          if out_dir \<notin> dirs w
          then (Inl (ValueError [''Invalid output directory %r'', out_dir]), w)
          else
            (let max_workers' =
                   (if py_major < 3 \<and> max_workers = None then Some 10 else max_workers)
             in case ThreadPoolExecutor default_workers max_workers' of
                  Inl e \<Rightarrow> (Inl e, w)
                | Inr pool \<Rightarrow>
                    (let urls = map strip (filter (\<lambda>line. strip line \<noteq> []) ls);
                         (fs, w1) = submit_all dl worker out_dir 0 urls w;
                         (error_count, w2) = count_errors fs 0 w1
                     in (Inr \<lparr>success = int (length fs) - error_count,
                               failed = error_count,
                               total = int (length fs)\<rparr>, w2))))"

section \<open>Example worlds\<close>

text \<open>
  A world with the directories \<open>/tmp\<close> and \<open>/out\<close>, the files listed, no readable text
  file, a network that refuses every connection, and an empty object store.
\<close>

definition world_with :: "(string \<times> string) list \<Rightarrow> world" where
  "world_with fs =
     \<lparr>http = (\<lambda>url. Inl (RequestException url)), files = map_of fs,
      dirs = {''/tmp'', ''/out''}, text_lines = Map.empty, closed = [], log = [],
      next_obj = 0, thread_attrs = Map.empty\<rparr>"

text \<open>The same world, where a GET of \<open>url\<close> gives the response \<open>r\<close>.\<close>

definition serving :: "string \<Rightarrow> response \<Rightarrow> world \<Rightarrow> world" where
  "serving url r w = w\<lparr>http := (\<lambda>u. if u = url then Inr r else http w u)\<rparr>"

text \<open>The library helpers where they leave a name as it is.\<close>

definition plain_libs :: libs where
  "plain_libs = \<lparr>unquote_unreserved = Inr, sanitize_filename = Inr\<rparr>"

text \<open>A response with status 200 and an empty body.\<close>

definition response_of :: "string \<Rightarrow> string option \<Rightarrow> disposition \<Rightarrow> response" where
  "response_of url ctype disp =
     \<lparr>resp_url = url, status_code = 200, content_type = ctype, disposition = disp, raw = []\<rparr>"

text \<open>The errors among the outcomes of the tasks, in order.\<close>

fun errors_of :: "(error + string) list \<Rightarrow> error list" where
  "errors_of [] = []"
| "errors_of (Inl err # fs) = err # errors_of fs"
| "errors_of (Inr name # fs) = errors_of fs"

text \<open>
  The stand-in for \<open>download_image\<close> and the list of URLs of the repository's test
  \<open>test_download_manager\<close>: two of the five tasks fail.
\<close>

definition download_image_mock :: task where
  "download_image_mock thread url out_dir w =
     (if url = ''raise'' then (Inl (ValueError [''failed'']), w) else (Inr [], w))"

definition newline :: string where
  "newline = [CHR 0x0A]"

definition url_list :: "string list" where
  "url_list =
     [newline,
      ''        success'' @ newline,
      ''        success'' @ newline,
      newline,
      ''        raise'' @ newline,
      ''        raise'' @ newline,
      ''        success'' @ newline,
      ''    '']"

section \<open>The alias rule in the words of the specification\<close>

text \<open>
  ``Treat \<open>jpg\<close> and \<open>jpeg\<close> as mutually interchangeable aliases (case-insensitive)'':
  two extensions are alias-equivalent when they are equal once both are lower-cased and
  \<open>jpeg\<close> is read as \<open>jpg\<close>.
\<close>

definition canonical_extension_spec :: "string \<Rightarrow> string" where
  "canonical_extension_spec e = (if lower e = ''jpeg'' then ''jpg'' else lower e)"

definition alias_equivalent_spec :: "string \<Rightarrow> string \<Rightarrow> bool" where
  "alias_equivalent_spec a b = (canonical_extension_spec a = canonical_extension_spec b)"

section \<open>Facts about strings and paths\<close>

lemma str_nat_digit: "n < 10 \<Longrightarrow> str_nat n = [digit_char n]"
  by (subst str_nat.simps) simp

lemma str_nat_more: "10 \<le> n \<Longrightarrow> str_nat n = str_nat (n div 10) @ [digit_char (n mod 10)]"
  by (subst str_nat.simps) simp

lemma str_nat_1:
  "str_nat (Suc 0) = ''1''" "str_nat 1 = ''1''" "str_nat 2 = ''2''" "str_nat 9999 = ''9999''"
  by (simp_all add: str_nat_digit str_nat_more digit_char_def)

lemma takeWhile_upto: "sep \<notin> set t \<Longrightarrow> takeWhile (\<lambda>c. c \<noteq> sep) (t @ sep # r) = t"
  by (induction t) auto

lemma dropWhile_upto: "sep \<notin> set t \<Longrightarrow> dropWhile (\<lambda>c. c \<noteq> sep) (t @ sep # r) = sep # r"
  by (induction t) auto

lemma takeWhile_all: "sep \<notin> set t \<Longrightarrow> takeWhile (\<lambda>c. c \<noteq> sep) t = t"
  by (induction t) auto

lemma dropWhile_all: "sep \<notin> set t \<Longrightarrow> dropWhile (\<lambda>c. c \<noteq> sep) t = []"
  by (induction t) auto

lemma rsplit_last_sep: "sep \<notin> set t \<Longrightarrow> rsplit_last sep (h @ sep # t) = t"
  by (simp add: rsplit_last_def takeWhile_upto)

lemma rsplit_last_none: "sep \<notin> set t \<Longrightarrow> rsplit_last sep t = t"
  by (simp add: rsplit_last_def takeWhile_all)

lemma rpartition_sep: "sep \<notin> set t \<Longrightarrow> rpartition sep (h @ sep # t) = (h, t)"
  by (simp add: rpartition_def takeWhile_upto dropWhile_upto)

lemma rsplit_last_no_sep: "sep \<notin> set (rsplit_last sep s)"
  unfolding rsplit_last_def by (auto dest: set_takeWhileD)

lemma basename_dir: "CHR ''/'' \<notin> set n \<Longrightarrow> basename (d @ ''/'' @ n) = n"
  by (simp add: basename_def rsplit_last_sep)

lemma basename_bare: "CHR ''/'' \<notin> set n \<Longrightarrow> basename n = n"
  by (simp add: basename_def rsplit_last_none)

lemma dirname_bare: "CHR ''/'' \<notin> set n \<Longrightarrow> dirname n = []"
  by (simp add: dirname_def dropWhile_all)

lemma rstrip_char_keep: "s \<noteq> [] \<Longrightarrow> last s \<noteq> c \<Longrightarrow> rstrip_char c (s @ [c]) = s"
  by (cases s rule: rev_cases) (simp_all add: rstrip_char_def)

lemma dirname_dir:
  assumes "CHR ''/'' \<notin> set n" "d \<noteq> []" "last d \<noteq> CHR ''/''"
  shows "dirname (d @ ''/'' @ n) = d"
proof -
  have h: "rev (dropWhile (\<lambda>c. c \<noteq> CHR ''/'') (rev (d @ ''/'' @ n))) = d @ ''/''"
    using assms(1) by (simp add: dropWhile_upto)
  have "last d \<in> set (d @ ''/'')" using assms(2) by simp
  then have "d @ ''/'' \<noteq> replicate (length (d @ ''/'')) CHR ''/''"
    using assms(3) by (metis in_set_replicate)
  then show ?thesis
    unfolding dirname_def h using rstrip_char_keep [OF assms(2,3)] by (simp add: Let_def)
qed

lemma path_join_plain:
  "d \<noteq> [] \<Longrightarrow> last d \<noteq> CHR ''/'' \<Longrightarrow> n \<noteq> [] \<Longrightarrow> hd n \<noteq> CHR ''/'' \<Longrightarrow> path_join d n = d @ ''/'' @ n"
  by (cases n; cases d rule: rev_cases) (simp_all add: path_join_def startswith_def endswith_def)

lemma path_join_empty: "n \<noteq> [] \<Longrightarrow> hd n \<noteq> CHR ''/'' \<Longrightarrow> path_join [] n = n"
  by (cases n) (simp_all add: path_join_def startswith_def)

section \<open>Facts about \<open>rename_if_exists\<close>\<close>

lemma rename_loop_broke:
  "rename_loop w cand fp i n = (fp', True) \<Longrightarrow>
     \<exists>j. i \<le> j \<and> j < i + n \<and> fp' = cand j \<and> \<not> path_exists w (cand j)
        \<and> (\<forall>k. i \<le> k \<and> k < j \<longrightarrow> path_exists w (cand k))"
proof (induction n arbitrary: fp i)
  case 0
  then show ?case by simp
next
  case (Suc n)
  show ?case
  proof (cases "path_exists w (cand i)")
    case False
    with Suc.prems have "fp' = cand i" by simp
    with False show ?thesis by (intro exI [of _ i]) auto
  next
    case True
    with Suc.prems have "rename_loop w cand (cand i) (Suc i) n = (fp', True)" by simp
    from Suc.IH [OF this] obtain j where j: "Suc i \<le> j" "j < Suc i + n" "fp' = cand j"
      "\<not> path_exists w (cand j)" "\<forall>k. Suc i \<le> k \<and> k < j \<longrightarrow> path_exists w (cand k)"
      by blast
    have "\<forall>k. i \<le> k \<and> k < j \<longrightarrow> path_exists w (cand k)"
      using j(5) True by (metis Suc_leI le_neq_implies_less)
    with j show ?thesis by (intro exI [of _ j]) auto
  qed
qed

lemma rename_loop_exhausted:
  "rename_loop w cand fp i n = (fp', False) \<Longrightarrow>
     (\<forall>k. i \<le> k \<and> k < i + n \<longrightarrow> path_exists w (cand k))
     \<and> fp' = (if n = 0 then fp else cand (i + n - 1))"
proof (induction n arbitrary: fp i)
  case 0
  then show ?case by auto
next
  case (Suc n)
  show ?case
  proof (cases "path_exists w (cand i)")
    case False
    with Suc.prems show ?thesis by simp
  next
    case True
    with Suc.prems have r: "rename_loop w cand (cand i) (Suc i) n = (fp', False)" by simp
    from Suc.IH [OF r] have a: "\<forall>k. Suc i \<le> k \<and> k < Suc i + n \<longrightarrow> path_exists w (cand k)"
      and b: "fp' = (if n = 0 then cand i else cand (Suc i + n - 1))" by blast+
    have "\<forall>k. i \<le> k \<and> k < i + Suc n \<longrightarrow> path_exists w (cand k)"
      using a True by (metis Suc_leI add_Suc add_Suc_right le_neq_implies_less)
    moreover have "fp' = cand (i + Suc n - 1)" using b by (cases n) simp_all
    ultimately show ?thesis by simp
  qed
qed


lemma numbered_in_directory:
  assumes "d \<noteq> []" "last d \<noteq> CHR ''/''" "CHR ''/'' \<notin> set b" "CHR ''/'' \<notin> set e" "CHR ''.'' \<notin> set e"
  shows "numbered (d @ ''/'' @ b @ ''.'' @ e) i = d @ ''/'' @ b @ ''_'' @ str_nat i @ ''.'' @ e"
proof -
  have n: "CHR ''/'' \<notin> set (b @ ''.'' @ e)" using assms by simp
  have "hd (b @ ''_'' @ str_nat i @ ''.'' @ e) \<noteq> CHR ''/''"
    using assms(3) by (cases b) auto
  then have j: "path_join d (b @ ''_'' @ str_nat i @ ''.'' @ e) = d @ ''/'' @ b @ ''_'' @ str_nat i @ ''.'' @ e"
    using assms(1,2) by (intro path_join_plain) simp_all
  have rp: "rpartition CHR ''.'' (b @ ''.'' @ e) = (b, e)"
    using rpartition_sep [of "CHR ''.''" e b] assms(5) by simp
  have bn: "basename (d @ ''/'' @ b @ ''.'' @ e) = b @ ''.'' @ e"
    using basename_dir [OF n] by simp
  have dn: "dirname (d @ ''/'' @ b @ ''.'' @ e) = d"
    using dirname_dir [OF n assms(1,2)] by simp
  show ?thesis
    unfolding numbered_def bn dn rp using j by (simp only: Let_def split_conv)
qed

lemma numbered_bare:
  assumes "CHR ''/'' \<notin> set b" "CHR ''/'' \<notin> set e" "CHR ''.'' \<notin> set e"
  shows "numbered (b @ ''.'' @ e) i = b @ ''_'' @ str_nat i @ ''.'' @ e"
proof -
  have n: "CHR ''/'' \<notin> set (b @ ''.'' @ e)" using assms by simp
  have "hd (b @ ''_'' @ str_nat i @ ''.'' @ e) \<noteq> CHR ''/''"
    using assms(1) by (cases b) auto
  then have j: "path_join [] (b @ ''_'' @ str_nat i @ ''.'' @ e) = b @ ''_'' @ str_nat i @ ''.'' @ e"
    by (intro path_join_empty) simp_all
  have rp: "rpartition CHR ''.'' (b @ ''.'' @ e) = (b, e)"
    using rpartition_sep [of "CHR ''.''" e b] assms(3) by simp
  show ?thesis
    unfolding numbered_def basename_bare [OF n] dirname_bare [OF n] rp using j
    by (simp only: Let_def split_conv)
qed

lemma rename_if_exists_loop:
  "path_exists w p \<Longrightarrow> rename_loop w (numbered p) p 1 9999 = (fp', broke) \<Longrightarrow>
   rename_if_exists p w =
     (if broke then (fp', w) else (fp', logger (Warning (''Failed to rename '' @ repr fp')) w))"
  unfolding rename_if_exists_def by (simp only: simp_thms if_False split_conv Let_def)

section \<open>C3: \<open>rename_if_exists\<close> takes the smallest free index\<close>

text \<open>
  Claim C3. A path that does not exist is returned unchanged, with nothing logged. For a
  path that exists, the result is the path numbered \<open>i\<close> (the directory of the path joined
  with \<open>base_i.ext\<close>, base and extension being the parts of the file name around its last
  dot), where \<open>i\<close> is between 1 and 9999 and every smaller index from 1 names an existing
  path; either that path is free and nothing is logged, or \<open>i\<close> is 9999, all 9999 paths
  exist, and the last name is returned with one warning and no error. For a path
  \<open>d/b.e\<close> the numbered path is \<open>d/b_i.e\<close>: the number goes before the extension.
  At \<open>/tmp/test.jpg\<close> the results are \<open>/tmp/test_1.jpg\<close>, and \<open>/tmp/test_2.jpg\<close> when
  \<open>/tmp/test_1.jpg\<close> exists too.
\<close>

theorem rename_if_exists_least_free:
  "(\<not> path_exists w p \<longrightarrow> rename_if_exists p w = (p, w)) \<and>
   (path_exists w p \<longrightarrow>
      (\<exists>i. 1 \<le> i \<and> i \<le> 9999 \<and> fst (rename_if_exists p w) = numbered p i
         \<and> (\<forall>k. 1 \<le> k \<and> k < i \<longrightarrow> path_exists w (numbered p k))
         \<and> (if path_exists w (numbered p i)
             then i = 9999 \<and> snd (rename_if_exists p w)
                    = logger (Warning (''Failed to rename '' @ repr (numbered p i))) w
             else snd (rename_if_exists p w) = w))) \<and>
   (\<forall>d b e j. d \<noteq> [] \<and> last d \<noteq> CHR ''/'' \<and> CHR ''/'' \<notin> set b \<and> CHR ''/'' \<notin> set e
        \<and> CHR ''.'' \<notin> set e \<longrightarrow>
      numbered (d @ ''/'' @ b @ ''.'' @ e) j = d @ ''/'' @ b @ ''_'' @ str_nat j @ ''.'' @ e)"
proof (intro conjI impI)
  show "\<forall>d b e j. d \<noteq> [] \<and> last d \<noteq> CHR ''/'' \<and> CHR ''/'' \<notin> set b \<and> CHR ''/'' \<notin> set e
        \<and> CHR ''.'' \<notin> set e \<longrightarrow>
      numbered (d @ ''/'' @ b @ ''.'' @ e) j = d @ ''/'' @ b @ ''_'' @ str_nat j @ ''.'' @ e"
    using numbered_in_directory by blast
next
  assume "\<not> path_exists w p"
  then show "rename_if_exists p w = (p, w)"
    unfolding rename_if_exists_def by (simp only: simp_thms if_True)
next
  assume ex: "path_exists w p"
  obtain fp' broke where r: "rename_loop w (numbered p) p 1 9999 = (fp', broke)"
    by (rule prod.exhaust)
  note u = rename_if_exists_loop [OF ex r]
  show "\<exists>i. 1 \<le> i \<and> i \<le> 9999 \<and> fst (rename_if_exists p w) = numbered p i
         \<and> (\<forall>k. 1 \<le> k \<and> k < i \<longrightarrow> path_exists w (numbered p k))
         \<and> (if path_exists w (numbered p i)
             then i = 9999 \<and> snd (rename_if_exists p w)
                    = logger (Warning (''Failed to rename '' @ repr (numbered p i))) w
             else snd (rename_if_exists p w) = w)"
  proof (cases broke)
    case True
    from r have "rename_loop w (numbered p) p 1 9999 = (fp', True)"
      unfolding True [THEN Eq_TrueI] .
    from rename_loop_broke [OF this] obtain j where
      j: "1 \<le> j" "j < 1 + 9999" "fp' = numbered p j" "\<not> path_exists w (numbered p j)"
         "\<forall>k. 1 \<le> k \<and> k < j \<longrightarrow> path_exists w (numbered p k)" by blast
    have "rename_if_exists p w = (numbered p j, w)"
      unfolding u j(3) True [THEN Eq_TrueI] by (simp only: if_True)
    with j show ?thesis by (intro exI [of _ j]) simp
  next
    case False
    from r have "rename_loop w (numbered p) p 1 9999 = (fp', False)"
      unfolding False [THEN Eq_FalseI] .
    from rename_loop_exhausted [OF this] have
      a: "\<forall>k. 1 \<le> k \<and> k < 1 + 9999 \<longrightarrow> path_exists w (numbered p k)"
      and b: "fp' = numbered p 9999" by simp_all
    have "rename_if_exists p w
            = (numbered p 9999, logger (Warning (''Failed to rename '' @ repr (numbered p 9999))) w)"
      unfolding u b False [THEN Eq_FalseI] by (simp only: if_False)
    with a show ?thesis by (intro exI [of _ 9999]) simp
  qed
qed


theorem rename_if_exists_least_free_witness:
  "path_exists (world_with [(''/tmp/test.jpg'', [])]) ''/tmp/test.jpg'' \<and>
   fst (rename_if_exists ''/tmp/test.jpg'' (world_with [(''/tmp/test.jpg'', [])]))
     = ''/tmp/test_1.jpg'' \<and>
   fst (rename_if_exists ''/tmp/test.jpg''
          (world_with [(''/tmp/test.jpg'', []), (''/tmp/test_1.jpg'', [])]))
     = ''/tmp/test_2.jpg''"
proof -
  let ?p = "''/tmp/test.jpg''"
  let ?w1 = "world_with [(?p, [])]"
  let ?w2 = "world_with [(?p, []), (''/tmp/test_1.jpg'', [])]"
  have n: "numbered ?p i = ''/tmp/test_'' @ str_nat i @ ''.jpg''" for i
    using numbered_in_directory [of "''/tmp''" "''test''" "''jpg''" i] by simp
  have e1: "path_exists ?w1 ?p" and e2: "path_exists ?w2 ?p"
    by (simp_all add: path_exists_def world_with_def)
  have f1: "\<not> path_exists ?w1 (numbered ?p 1)"
    by (simp add: n str_nat_1 path_exists_def world_with_def)
  have g1: "path_exists ?w2 (numbered ?p 1)" and g2: "\<not> path_exists ?w2 (numbered ?p 2)"
    by (simp_all add: n str_nat_1 path_exists_def world_with_def)
  from rename_if_exists_least_free [of ?w1 ?p] e1 obtain i where
    i: "1 \<le> i" "fst (rename_if_exists ?p ?w1) = numbered ?p i"
       "\<forall>k. 1 \<le> k \<and> k < i \<longrightarrow> path_exists ?w1 (numbered ?p k)" by blast
  have "i = 1"
  proof (rule ccontr)
    assume "i \<noteq> 1"
    with i(1) have "1 \<le> (1::nat) \<and> 1 < i" by simp
    with i(3) have "path_exists ?w1 (numbered ?p 1)" by blast
    with f1 show False ..
  qed
  with i(2) have r1: "fst (rename_if_exists ?p ?w1) = ''/tmp/test_1.jpg''"
    by (simp add: n str_nat_1)
  from rename_if_exists_least_free [of ?w2 ?p] e2 obtain j where
    j: "1 \<le> j" "fst (rename_if_exists ?p ?w2) = numbered ?p j"
       "\<forall>k. 1 \<le> k \<and> k < j \<longrightarrow> path_exists ?w2 (numbered ?p k)"
       "if path_exists ?w2 (numbered ?p j) then j = 9999 \<and> snd (rename_if_exists ?p ?w2)
              = logger (Warning (''Failed to rename '' @ repr (numbered ?p j))) ?w2
        else snd (rename_if_exists ?p ?w2) = ?w2" by blast
  have "j \<noteq> 1"
  proof
    assume "j = 1"
    with j(4) g1 show False by simp
  qed
  have "j = 2"
  proof (rule ccontr)
    assume "j \<noteq> 2"
    with j(1) \<open>j \<noteq> 1\<close> have "1 \<le> (2::nat) \<and> 2 < j" by simp
    with j(3) have "path_exists ?w2 (numbered ?p 2)" by blast
    with g2 show False ..
  qed
  with j(2) have r2: "fst (rename_if_exists ?p ?w2) = ''/tmp/test_2.jpg''"
    by (simp add: n str_nat_1)
  from e1 r1 r2 show ?thesis by (intro conjI)
qed

section \<open>Facts about \<open>get_filename\<close>\<close>

lemma lower_examples:
  "lower ''jpg'' = ''jpg''" "lower ''jpeg'' = ''jpeg''" "lower ''JPEG'' = ''jpeg''"
  "lower ''JPG'' = ''jpg''" "lower ''bmp'' = ''bmp''"
  by code_simp+

lemma endswith_append: "endswith (s @ p) p"
  by (simp add: endswith_def)

lemma endswith_split: "endswith s p \<Longrightarrow> \<exists>pre. s = pre @ p"
  unfolding endswith_def by (metis append_take_drop_id)

lemma rsplit_last_suffix:
  assumes "endswith s (CHR ''.'' # e)" "CHR ''.'' \<notin> set e"
  shows "rsplit_last CHR ''.'' s = e"
proof -
  from endswith_split [OF assms(1)] obtain pre where "s = pre @ CHR ''.'' # e" by blast
  with assms(2) show ?thesis by (simp add: rsplit_last_sep)
qed

lemma filename_sanitized_ok:
  assumes "e \<noteq> []" "hd e \<noteq> CHR ''.''"
  shows "\<exists>name. filename_sanitized fn e = Inr name \<and> endswith name (''.'' @ e)"
  using assms by (simp add: filename_sanitized_def Let_def endswith_append)

lemma safe_aliases_nonempty: "e \<in> set (safe_aliases []) \<Longrightarrow> e = []"
  by (simp add: safe_aliases_def lower_def)

lemma safe_aliases_jpg:
  "lower x = ''jpg'' \<Longrightarrow> safe_aliases x = [''jpg'', ''jpg'', ''jpeg'']"
  "lower x = ''jpeg'' \<Longrightarrow> safe_aliases x = [''jpeg'', ''jpg'', ''jpeg'']"
  by (simp_all add: safe_aliases_def startswith_def)


lemma get_filename_bmp:
  "get_filename L (response_of url ctype (Parsed ''foobar.jpg'')) ''bmp'' w = (Inr ''foobar.jpg.bmp'', w)"
  by (simp add: get_filename_def response_of_def filename_sanitized_def safe_aliases_def
      rsplit_last_def lower_examples startswith_def endswith_def basename_def lstrip_char_def Let_def)

lemma get_filename_upper_subtype:
  "get_filename L (response_of url ctype (Parsed ''foobar.jpg'')) ''JPG'' w = (Inr ''foobar.jpg.JPG'', w)"
  by (simp add: get_filename_def response_of_def filename_sanitized_def safe_aliases_def
      rsplit_last_def lower_examples startswith_def endswith_def basename_def lstrip_char_def Let_def)

section \<open>C4: which extension \<open>get_filename\<close> gives a parsed file name\<close>

text \<open>
  Claim C4, as amended. When the content-disposition file name parses (and the expected
  extension, the declared subtype, is not empty and does not start with a dot), the final
  name is built with the parsed extension exactly when the expected extension, taken as
  it is declared, is one of the safe aliases of the parsed extension: the parsed
  extension in lower case, or that with \<open>jpeg\<close> replaced by \<open>jpg\<close>, or with \<open>jpg\<close>
  replaced by \<open>jpeg\<close>. The final name then ends with the parsed extension in its own
  casing and spelling. Otherwise the final name ends with the expected extension. An
  expected extension \<open>jpg\<close> or \<open>jpeg\<close> is a safe alias of every parsed extension that is
  \<open>jpg\<close> or \<open>jpeg\<close> in any casing, and \<open>foobar.jpg\<close> with the subtype \<open>bmp\<close> gives
  \<open>foobar.jpg.bmp\<close>.
\<close>

theorem get_filename_keeps_extension:
  "(disposition r = Parsed fn \<and> ext = rsplit_last CHR ''.'' fn \<and> expected \<noteq> []
      \<and> hd expected \<noteq> CHR ''.'' \<longrightarrow>
      (\<exists>name. get_filename L r expected w = (Inr name, w) \<and>
         (if expected \<in> set (safe_aliases ext)
          then filename_sanitized fn ext = Inr name \<and> endswith name (''.'' @ ext)
               \<and> rsplit_last CHR ''.'' name = ext
          else filename_sanitized fn expected = Inr name \<and> endswith name (''.'' @ expected)))) \<and>
   (expected \<in> {''jpg'', ''jpeg''} \<and> lower ext \<in> {''jpg'', ''jpeg''} \<longrightarrow>
      expected \<in> set (safe_aliases ext)) \<and>
   get_filename L (response_of url ctype (Parsed ''foobar.jpg'')) ''bmp'' w
     = (Inr ''foobar.jpg.bmp'', w)"
proof (intro conjI impI)
  assume a: "disposition r = Parsed fn \<and> ext = rsplit_last CHR ''.'' fn \<and> expected \<noteq> []
      \<and> hd expected \<noteq> CHR ''.''"
  show "\<exists>name. get_filename L r expected w = (Inr name, w) \<and>
         (if expected \<in> set (safe_aliases ext)
          then filename_sanitized fn ext = Inr name \<and> endswith name (''.'' @ ext)
               \<and> rsplit_last CHR ''.'' name = ext
          else filename_sanitized fn expected = Inr name \<and> endswith name (''.'' @ expected))"
  proof (cases "expected \<in> set (safe_aliases ext)")
    case True
    have "ext \<noteq> []" using True a safe_aliases_nonempty by blast
    moreover have nodot: "CHR ''.'' \<notin> set ext" using a rsplit_last_no_sep by simp
    ultimately have "hd ext \<noteq> CHR ''.''" by (metis hd_in_set)
    from filename_sanitized_ok [OF \<open>ext \<noteq> []\<close> this] obtain name where
      n: "filename_sanitized fn ext = Inr name" "endswith name (''.'' @ ext)" by blast
    have "rsplit_last CHR ''.'' name = ext"
      using n(2) nodot by (intro rsplit_last_suffix) simp_all
    moreover have "get_filename L r expected w = (Inr name, w)"
      using a True n(1) by (simp add: get_filename_def Let_def)
    ultimately show ?thesis using True n by simp
  next
    case False
    from a filename_sanitized_ok [of expected fn] obtain name where
      n: "filename_sanitized fn expected = Inr name" "endswith name (''.'' @ expected)" by blast
    have "get_filename L r expected w = (Inr name, w)"
      using a False n(1) by (simp add: get_filename_def Let_def)
    then show ?thesis using False n by simp
  qed
next
  assume "expected \<in> {''jpg'', ''jpeg''} \<and> lower ext \<in> {''jpg'', ''jpeg''}"
  then show "expected \<in> set (safe_aliases ext)"
    using safe_aliases_jpg [of ext] by auto
next
  show "get_filename L (response_of url ctype (Parsed ''foobar.jpg'')) ''bmp'' w
     = (Inr ''foobar.jpg.bmp'', w)"
    by (rule get_filename_bmp)
qed

theorem get_filename_keeps_extension_witness:
  "\<exists>name. get_filename plain_libs (response_of ''http://abc.de/bla/foobar.JPEG''
               (Some ''image/jpeg'') (Parsed ''foobar.JPEG'')) ''jpeg'' (world_with [])
             = (Inr name, world_with [])
          \<and> endswith name ''.JPEG'' \<and> rsplit_last CHR ''.'' name = ''JPEG''"
proof -
  have e: "''JPEG'' = rsplit_last CHR ''.'' ''foobar.JPEG''"
    by (simp add: rsplit_last_def)
  have k: "''jpeg'' \<in> set (safe_aliases ''JPEG'')"
    by (simp add: safe_aliases_def lower_examples)
  show ?thesis
    using get_filename_keeps_extension [of "response_of ''http://abc.de/bla/foobar.JPEG''
               (Some ''image/jpeg'') (Parsed ''foobar.JPEG'')" "''foobar.JPEG''" "''JPEG''" "''jpeg''"
               plain_libs "world_with []" "[]" None] e k
    by (auto simp: response_of_def)
qed

text \<open>
  The claim as stated compares the two extensions without regard to case. The code folds
  the case of the parsed extension only: with the declared subtype \<open>JPG\<close> and the parsed
  name \<open>foobar.jpg\<close> the extensions are alias-equivalent in the words of the
  specification, and the expected extension is forced all the same.
\<close>

theorem get_filename_alias_counterexample:
  "alias_equivalent_spec (rsplit_last CHR ''.'' ''foobar.jpg'') ''JPG'' \<and>
   get_filename plain_libs (response_of ''http://abc.de/bla/foobar.jpg'' (Some ''image/JPG'')
       (Parsed ''foobar.jpg'')) ''JPG'' (world_with [])
     = (Inr ''foobar.jpg.JPG'', world_with []) \<and>
   rsplit_last CHR ''.'' ''foobar.jpg.JPG'' \<noteq> rsplit_last CHR ''.'' ''foobar.jpg''"
  by (simp add: get_filename_upper_subtype alias_equivalent_spec_def canonical_extension_spec_def
      lower_examples rsplit_last_def)

section \<open>Facts about \<open>get_session\<close> and \<open>download_image\<close>\<close>

lemma get_session_fresh:
  assumes "store_ok w"
  shows "get_session t w =
           (Suc (next_obj w),
            w\<lparr>next_obj := Suc (Suc (next_obj w)),
              thread_attrs := (thread_attrs w)((next_obj w, t) \<mapsto> Suc (next_obj w))\<rparr>)"
proof -
  have "thread_attrs w (next_obj w, t) = None"
    using assms unfolding store_ok_def by (metis less_irrefl)
  then show ?thesis by (simp add: get_session_def new_object_def)
qed

lemma store_ok_get_session: "store_ok w \<Longrightarrow> store_ok (snd (get_session t w))"
  by (simp add: get_session_fresh) (auto simp: store_ok_def less_Suc_eq)

lemma get_session_frame:
  "http (snd (get_session t w)) = http w"
  "files (snd (get_session t w)) = files w"
  "dirs (snd (get_session t w)) = dirs w"
  "closed (snd (get_session t w)) = closed w"
  "log (snd (get_session t w)) = log w"
  by (simp_all add: get_session_def new_object_def split: option.split)

lemma logger_frame:
  "http (logger x w) = http w" "files (logger x w) = files w" "dirs (logger x w) = dirs w"
  "closed (logger x w) = closed w" "log (logger x w) = log w @ [x]"
  "next_obj (logger x w) = next_obj w" "thread_attrs (logger x w) = thread_attrs w"
  by (simp_all add: logger_def)

lemma download_image_invalid_type:
  assumes "http w url = Inr r" "raise_for_status r = Inr ()"
    "partition_str CHR ''/'' (declared_type r) = (media_type, subtype)"
    "media_type \<noteq> ''image'' \<or> subtype = []"
    "w2 = snd (get_session thread (logger (Debug (''Requesting '' @ repr url)) w))"
  shows "download_image L thread url out_dir w =
           (Inl (ValueError [''Invalid image type '' @ repr (declared_type r) @ '' from '' @ repr url]),
            w2\<lparr>closed := closed w2 @ [url]\<rparr>)"
proof -
  have h: "http w2 url = Inr r"
    using assms(1,5) by (simp add: get_session_frame logger_frame)
  obtain s where g: "get_session thread (logger (Debug (''Requesting '' @ repr url)) w) = (s, w2)"
    using assms(5) by (metis prod.collapse)
  show ?thesis
    unfolding download_image_def Let_def g split_conv h sum.case assms(2,3)
    using assms(4) by simp
qed

lemma download_image_success:
  assumes "http w url = Inr r" "raise_for_status r = Inr ()"
    "partition_str CHR ''/'' (declared_type r) = (''image'', subtype)" "subtype \<noteq> []"
    "w2 = snd (get_session thread (logger (Debug (''Requesting '' @ repr url)) w))"
    "get_filename L r subtype w2 = (Inr filename0, w3)"
    "sanitize_filename L filename0 = Inr filename"
    "rename_if_exists (path_join out_dir filename) w3 = (file_path, w4)"
    "open_wb file_path w4 = Inr ()"
  shows "download_image L thread url out_dir w =
           (Inr filename,
            logger (Debug (''Saved '' @ repr (basename file_path)))
              (w4\<lparr>files := (files w4)(file_path \<mapsto> raw r)\<rparr>))"
proof -
  have h: "http w2 url = Inr r"
    using assms(1,5) by (simp add: get_session_frame logger_frame)
  obtain s where g: "get_session thread (logger (Debug (''Requesting '' @ repr url)) w) = (s, w2)"
    using assms(5) by (metis prod.collapse)
  show ?thesis
    unfolding download_image_def Let_def g split_conv h sum.case assms(2,3,6,7,8,9)
    using assms(4) by simp
qed

lemma repr_char_plain:
  "isprintable c \<Longrightarrow> c \<noteq> CHR 0x5C \<Longrightarrow> c \<noteq> q \<Longrightarrow> repr_char q c = [c]"
  by (auto simp: repr_char_def isprintable_def)

lemma concat_singletons: "(\<And>c. c \<in> set s \<Longrightarrow> f c = [c]) \<Longrightarrow> concat (map f s) = s"
  by (induction s) simp_all

lemma repr_plain:
  assumes "\<forall>c \<in> set s. isprintable c \<and> c \<noteq> CHR 0x5C"
    and "\<not> (CHR 0x27 \<in> set s \<and> CHR 0x22 \<in> set s)"
  shows "\<exists>q. repr s = [q] @ s @ [q]"
proof -
  define q where "q = (if CHR 0x27 \<in> set s \<and> CHR 0x22 \<notin> set s then CHR 0x22 else CHR 0x27)"
  have "q \<notin> set s" using assms(2) by (auto simp: q_def)
  then have "concat (map (repr_char q) s) = s"
    using assms(1) by (intro concat_singletons repr_char_plain) auto
  then have "repr s = [q] @ s @ [q]" by (simp add: repr_def q_def [symmetric])
  then show ?thesis ..
qed

lemma repr_empty: "repr [] = [CHR 0x27, CHR 0x27]"
  by (simp add: repr_def Let_def)

lemma rename_if_exists_first_free:
  assumes "path_exists w p" "\<not> path_exists w (numbered p 1)"
  shows "rename_if_exists p w = (numbered p 1, w)"
proof -
  have "rename_loop w (numbered p) p 1 (Suc 9998) = (numbered p 1, True)"
    using assms(2) by (simp only: rename_loop.simps Let_def simp_thms if_True)
  moreover have "(9999::nat) = Suc 9998" by simp
  ultimately have "rename_loop w (numbered p) p 1 9999 = (numbered p 1, True)"
    by (simp only:)
  from rename_if_exists_loop [OF assms(1) this] show ?thesis by (simp only: if_True)
qed

lemma get_session_twice:
  "fst (get_session 0 (world_with [])) = 1"
  "fst (get_session 0 (snd (get_session 0 (world_with [])))) = 3"
  by (simp_all add: get_session_def new_object_def world_with_def)

section \<open>C6: every call of \<open>get_session\<close> creates a session\<close>

text \<open>
  Claim C6 says that two successive calls of \<open>get_session\<close> on one worker return the same
  client. The code creates its \<open>threading.local\<close> object inside the function, so each
  call looks the session up in a fresh object, finds none, and creates a new session:
  in every world whose store is well formed, the session returned by a second call on
  the same thread differs from the one returned by the first.
\<close>

theorem get_session_never_reuses:
  "store_ok w \<longrightarrow>
     fst (get_session t (snd (get_session t w))) \<noteq> fst (get_session t w)"
proof
  assume ok: "store_ok w"
  have "fst (get_session t (snd (get_session t w))) = Suc (next_obj (snd (get_session t w)))"
    using store_ok_get_session [OF ok, of t] by (simp add: get_session_fresh)
  also have "\<dots> = Suc (Suc (Suc (next_obj w)))"
    using ok by (simp add: get_session_fresh)
  finally show "fst (get_session t (snd (get_session t w))) \<noteq> fst (get_session t w)"
    using ok by (simp add: get_session_fresh)
qed

theorem get_session_never_reuses_witness:
  "store_ok (world_with []) \<and>
   fst (get_session 0 (snd (get_session 0 (world_with [])))) \<noteq> fst (get_session 0 (world_with []))"
  using get_session_never_reuses [of "world_with []" 0]
  by (simp add: store_ok_def world_with_def)

section \<open>C8: a response that is not an image\<close>

text \<open>
  Claim C8, as amended. When the GET succeeds with a status that \<open>raise_for_status\<close>
  accepts, and the declared content type (the header up to the first \<open>;\<close>, the empty
  string without a header) has a primary type other than \<open>image\<close> or an empty subtype,
  \<open>download_image\<close> fails with the \<open>ValueError\<close> whose message is \<open>Invalid image type\<close>,
  the \<open>repr\<close> of the declared content type, \<open>from\<close>, and the \<open>repr\<close> of the URL. The
  message contains the declared content type itself whenever \<open>repr\<close> has nothing to
  escape in it (printable characters, no backslash, not both kinds of quote). The
  response has been closed, and the files and directories are those from before the
  call.
\<close>

theorem download_image_invalid_content_type:
  "http w url = Inr r \<and> raise_for_status r = Inr ()
     \<and> partition_str CHR ''/'' (declared_type r) = (media_type, subtype)
     \<and> (media_type \<noteq> ''image'' \<or> subtype = []) \<longrightarrow>
   (\<exists>msg w'. download_image L thread url out_dir w = (Inl (ValueError [msg]), w')
      \<and> msg = ''Invalid image type '' @ repr (declared_type r) @ '' from '' @ repr url
      \<and> ((\<forall>c \<in> set (declared_type r). isprintable c \<and> c \<noteq> CHR 0x5C)
            \<and> \<not> (CHR 0x27 \<in> set (declared_type r) \<and> CHR 0x22 \<in> set (declared_type r))
          \<longrightarrow> (\<exists>pre post. msg = pre @ declared_type r @ post))
      \<and> closed w' = closed w @ [url]
      \<and> files w' = files w \<and> dirs w' = dirs w)"
proof
  assume a: "http w url = Inr r \<and> raise_for_status r = Inr ()
     \<and> partition_str CHR ''/'' (declared_type r) = (media_type, subtype)
     \<and> (media_type \<noteq> ''image'' \<or> subtype = [])"
  define w2 where "w2 = snd (get_session thread (logger (Debug (''Requesting '' @ repr url)) w))"
  define msg where "msg = ''Invalid image type '' @ repr (declared_type r) @ '' from '' @ repr url"
  have d: "download_image L thread url out_dir w
             = (Inl (ValueError [msg]), w2\<lparr>closed := closed w2 @ [url]\<rparr>)"
    unfolding msg_def using a w2_def by (intro download_image_invalid_type) blast+
  have f: "closed w2 = closed w" "files w2 = files w" "dirs w2 = dirs w"
    by (simp_all add: w2_def get_session_frame logger_frame)
  have c: "\<exists>pre post. msg = pre @ declared_type r @ post"
    if "(\<forall>c \<in> set (declared_type r). isprintable c \<and> c \<noteq> CHR 0x5C)
            \<and> \<not> (CHR 0x27 \<in> set (declared_type r) \<and> CHR 0x22 \<in> set (declared_type r))"
  proof -
    from that repr_plain [of "declared_type r"] obtain q where
      "repr (declared_type r) = [q] @ declared_type r @ [q]" by blast
    then have "msg = (''Invalid image type '' @ [q]) @ declared_type r @ ([q] @ '' from '' @ repr url)"
      by (simp add: msg_def)
    then show ?thesis by blast
  qed
  show "\<exists>msg w'. download_image L thread url out_dir w = (Inl (ValueError [msg]), w')
      \<and> msg = ''Invalid image type '' @ repr (declared_type r) @ '' from '' @ repr url
      \<and> ((\<forall>c \<in> set (declared_type r). isprintable c \<and> c \<noteq> CHR 0x5C)
            \<and> \<not> (CHR 0x27 \<in> set (declared_type r) \<and> CHR 0x22 \<in> set (declared_type r))
          \<longrightarrow> (\<exists>pre post. msg = pre @ declared_type r @ post))
      \<and> closed w' = closed w @ [url]
      \<and> files w' = files w \<and> dirs w' = dirs w"
    using d f c msg_def by (intro exI [of _ msg] exI [of _ "w2\<lparr>closed := closed w2 @ [url]\<rparr>"]) simp
qed

theorem download_image_invalid_content_type_witness:
  "(\<exists>msg w'. download_image plain_libs 0 ''http://abc.de/bla/foobar.jpg'' ''/out''
        (serving ''http://abc.de/bla/foobar.jpg''
           (response_of ''http://abc.de/bla/foobar.jpg'' (Some ''text/plain; charset=utf-8'')
              (Parsed ''foobar.jpg''))
           (world_with [])) = (Inl (ValueError [msg]), w')
      \<and> (\<exists>pre post. msg = pre @ ''text/plain'' @ post)
      \<and> closed w' = [''http://abc.de/bla/foobar.jpg''] \<and> files w' = Map.empty)"
proof -
  let ?url = "''http://abc.de/bla/foobar.jpg''"
  let ?r = "response_of ?url (Some ''text/plain; charset=utf-8'') (Parsed ''foobar.jpg'')"
  let ?w = "serving ?url ?r (world_with [])"
  have d: "declared_type ?r = ''text/plain''"
    by (simp add: declared_type_def response_of_def split_first_def)
  have h: "http ?w ?url = Inr ?r \<and> raise_for_status ?r = Inr ()
     \<and> partition_str CHR ''/'' (declared_type ?r) = (''text'', ''plain'')
     \<and> (''text'' \<noteq> ''image'' \<or> ''plain'' = [])"
    unfolding d by (simp add: serving_def raise_for_status_def response_of_def partition_str_def)
  have p: "(\<forall>c \<in> set (declared_type ?r). isprintable c \<and> c \<noteq> CHR 0x5C)
            \<and> \<not> (CHR 0x27 \<in> set (declared_type ?r) \<and> CHR 0x22 \<in> set (declared_type ?r))"
    unfolding d by (simp add: isprintable_def)
  have f: "closed ?w = []" "files ?w = Map.empty"
    by (simp_all add: serving_def world_with_def)
  from download_image_invalid_content_type [of ?w ?url ?r "''text''" "''plain''" plain_libs 0 "''/out''"]
    h p show ?thesis unfolding d f by auto
qed

lemma contains_iff: "contains s sub \<longleftrightarrow> (\<exists>pre post. s = pre @ sub @ post)"
proof (induction s)
  case Nil
  then show ?case by simp
next
  case (Cons c cs)
  have "startswith (c # cs) sub \<longleftrightarrow> (\<exists>post. c # cs = sub @ post)"
    unfolding startswith_def by (metis append_eq_conv_conj append_take_drop_id)
  moreover have "(\<exists>pre post. c # cs = pre @ sub @ post) \<longleftrightarrow>
      (\<exists>post. c # cs = sub @ post) \<or> (\<exists>pre post. cs = pre @ sub @ post)"
  proof
    assume "\<exists>pre post. c # cs = pre @ sub @ post"
    then obtain pre post where p: "c # cs = pre @ sub @ post" by blast
    show "(\<exists>post. c # cs = sub @ post) \<or> (\<exists>pre post. cs = pre @ sub @ post)"
    proof (cases pre)
      case Nil
      with p show ?thesis by auto
    next
      case (Cons a pre')
      with p have "cs = pre' @ sub @ post" by simp
      then show ?thesis by blast
    qed
  next
    assume "(\<exists>post. c # cs = sub @ post) \<or> (\<exists>pre post. cs = pre @ sub @ post)"
    then show "\<exists>pre post. c # cs = pre @ sub @ post"
    proof
      assume "\<exists>post. c # cs = sub @ post"
      then obtain post where "c # cs = [] @ sub @ post" by auto
      then show ?thesis by blast
    next
      assume "\<exists>pre post. cs = pre @ sub @ post"
      then obtain pre post where "c # cs = (c # pre) @ sub @ post" by auto
      then show ?thesis by blast
    qed
  qed
  ultimately show ?case using Cons.IH by simp
qed

text \<open>
  The claim as stated, that the message contains the declared content type for every
  response, fails where \<open>repr\<close> escapes a character: with the header
  \<open>text/html\<close>, a tab, \<open>; charset=utf-8\<close>, the declared content type ends with the tab,
  and the message holds a backslash and the letter \<open>t\<close> in its place.
\<close>

theorem download_image_content_type_tab_counterexample:
  "declared_type (response_of ''http://abc.de/bla/foobar.jpg''
       (Some (''text/html'' @ [CHR 0x09] @ ''; charset=utf-8'')) (Parsed ''foobar.jpg''))
     = ''text/html'' @ [CHR 0x09] \<and>
   fst (download_image plain_libs 0 ''http://abc.de/bla/foobar.jpg'' ''/out''
          (serving ''http://abc.de/bla/foobar.jpg''
             (response_of ''http://abc.de/bla/foobar.jpg''
                (Some (''text/html'' @ [CHR 0x09] @ ''; charset=utf-8'')) (Parsed ''foobar.jpg''))
             (world_with [])))
     = Inl (ValueError [''Invalid image type '' @ [CHR 0x27] @ ''text/html'' @ [CHR 0x5C]
                          @ ''t'' @ [CHR 0x27] @ '' from '' @ [CHR 0x27]
                          @ ''http://abc.de/bla/foobar.jpg'' @ [CHR 0x27]]) \<and>
   \<not> contains (''Invalid image type '' @ [CHR 0x27] @ ''text/html'' @ [CHR 0x5C]
                          @ ''t'' @ [CHR 0x27] @ '' from '' @ [CHR 0x27]
                          @ ''http://abc.de/bla/foobar.jpg'' @ [CHR 0x27])
        (''text/html'' @ [CHR 0x09])"
proof -
  let ?url = "''http://abc.de/bla/foobar.jpg''"
  let ?r = "response_of ?url (Some (''text/html'' @ [CHR 0x09] @ ''; charset=utf-8''))
              (Parsed ''foobar.jpg'')"
  let ?w = "serving ?url ?r (world_with [])"
  have d: "declared_type ?r = ''text/html'' @ [CHR 0x09]"
    by (simp add: declared_type_def response_of_def split_first_def)
  have a1: "http ?w ?url = Inr ?r" by (simp add: serving_def)
  have a2: "raise_for_status ?r = Inr ()" by (simp add: raise_for_status_def response_of_def)
  have a3: "partition_str CHR ''/'' (declared_type ?r) = (''text'', ''html'' @ [CHR 0x09])"
    unfolding d by (simp add: partition_str_def)
  have r1: "repr (''text/html'' @ [CHR 0x09])
              = [CHR 0x27] @ ''text/html'' @ [CHR 0x5C] @ ''t'' @ [CHR 0x27]"
    by (simp add: repr_def repr_char_def isprintable_def Let_def)
  have r2: "repr ?url = [CHR 0x27] @ ?url @ [CHR 0x27]"
    by (simp add: repr_def repr_char_def isprintable_def Let_def)
  have "fst (download_image plain_libs 0 ?url ''/out'' ?w)
          = Inl (ValueError [''Invalid image type '' @ repr (declared_type ?r) @ '' from '' @ repr ?url])"
    using download_image_invalid_type [OF a1 a2 a3 _ refl, of plain_libs 0 "''/out''"] by simp
  then have m: "fst (download_image plain_libs 0 ?url ''/out'' ?w)
     = Inl (ValueError [''Invalid image type '' @ [CHR 0x27] @ ''text/html'' @ [CHR 0x5C]
                          @ ''t'' @ [CHR 0x27] @ '' from '' @ [CHR 0x27] @ ?url @ [CHR 0x27]])"
    unfolding d r1 r2 by simp
  have c: "\<not> contains (''Invalid image type '' @ [CHR 0x27] @ ''text/html'' @ [CHR 0x5C]
                          @ ''t'' @ [CHR 0x27] @ '' from '' @ [CHR 0x27] @ ?url @ [CHR 0x27])
        (''text/html'' @ [CHR 0x09])"
    by (simp add: startswith_def)
  from d m c show ?thesis by (intro conjI)
qed

section \<open>C10: a response without a content type\<close>

text \<open>
  Claim C10. When the response has no \<open>content-type\<close> header, the declared content type
  is the empty string, and \<open>download_image\<close> fails with the same \<open>ValueError\<close> as for a
  response that is not an image, its message showing the empty string. The response is
  closed and no file is written.
\<close>

theorem download_image_missing_content_type:
  "http w url = Inr r \<and> raise_for_status r = Inr () \<and> content_type r = None \<longrightarrow>
   declared_type r = [] \<and>
   (\<exists>w'. download_image L thread url out_dir w
            = (Inl (ValueError [''Invalid image type '' @ [CHR 0x27, CHR 0x27] @ '' from '' @ repr url]), w')
      \<and> closed w' = closed w @ [url] \<and> files w' = files w \<and> dirs w' = dirs w)"
proof
  assume a: "http w url = Inr r \<and> raise_for_status r = Inr () \<and> content_type r = None"
  define w2 where "w2 = snd (get_session thread (logger (Debug (''Requesting '' @ repr url)) w))"
  have e: "declared_type r = []"
    using a by (simp add: declared_type_def split_first_def)
  have p: "partition_str CHR ''/'' (declared_type r) = ([], [])"
    by (simp add: e partition_str_def)
  have "download_image L thread url out_dir w =
           (Inl (ValueError [''Invalid image type '' @ repr (declared_type r) @ '' from '' @ repr url]),
            w2\<lparr>closed := closed w2 @ [url]\<rparr>)"
    using a p w2_def by (intro download_image_invalid_type [where media_type = "[]" and subtype = "[]"]) simp_all
  then have d: "download_image L thread url out_dir w =
           (Inl (ValueError [''Invalid image type '' @ [CHR 0x27, CHR 0x27] @ '' from '' @ repr url]),
            w2\<lparr>closed := closed w2 @ [url]\<rparr>)"
    by (simp add: e repr_empty)
  have f: "closed w2 = closed w" "files w2 = files w" "dirs w2 = dirs w"
    by (simp_all add: w2_def get_session_frame logger_frame)
  show "declared_type r = [] \<and>
   (\<exists>w'. download_image L thread url out_dir w
            = (Inl (ValueError [''Invalid image type '' @ [CHR 0x27, CHR 0x27] @ '' from '' @ repr url]), w')
      \<and> closed w' = closed w @ [url] \<and> files w' = files w \<and> dirs w' = dirs w)"
    using e d f by (intro conjI exI [of _ "w2\<lparr>closed := closed w2 @ [url]\<rparr>"]) simp_all
qed

theorem download_image_missing_content_type_witness:
  "\<exists>w'. download_image plain_libs 0 ''http://abc.de/bla/foobar.jpg'' ''/out''
        (serving ''http://abc.de/bla/foobar.jpg''
           (response_of ''http://abc.de/bla/foobar.jpg'' None (Parsed ''foobar.jpg''))
           (world_with []))
      = (Inl (ValueError [''Invalid image type '' @ [CHR 0x27, CHR 0x27] @ '' from ''
                            @ repr ''http://abc.de/bla/foobar.jpg'']), w')
    \<and> closed w' = [''http://abc.de/bla/foobar.jpg''] \<and> files w' = Map.empty"
proof -
  let ?url = "''http://abc.de/bla/foobar.jpg''"
  let ?r = "response_of ?url None (Parsed ''foobar.jpg'')"
  let ?w = "serving ?url ?r (world_with [])"
  have h: "http ?w ?url = Inr ?r \<and> raise_for_status ?r = Inr () \<and> content_type ?r = None"
    by (simp add: serving_def raise_for_status_def response_of_def)
  have f: "closed ?w = []" "files ?w = Map.empty"
    by (simp_all add: serving_def world_with_def)
  from download_image_missing_content_type [of ?w ?url ?r plain_libs 0 "''/out''"] h
  show ?thesis unfolding f by auto
qed

section \<open>C5: the name \<open>download_image\<close> returns\<close>

text \<open>
  Claim C5 says that the returned name is the base name of the path the body was written
  to, numeric suffix included. The code returns the name it had before
  \<open>rename_if_exists\<close>: with \<open>/out/foobar.jpg\<close> already there, the body of
  \<open>http://abc.de/bla/foobar.jpg\<close> is written to \<open>/out/foobar_1.jpg\<close>, the debug record says
  \<open>Saved 'foobar_1.jpg'\<close>, the old file keeps its content, and the call returns
  \<open>foobar.jpg\<close>.
\<close>

theorem download_image_returns_name_before_renaming:
  "fst (download_image plain_libs 0 ''http://abc.de/bla/foobar.jpg'' ''/out''
          (serving ''http://abc.de/bla/foobar.jpg''
             ((response_of ''http://abc.de/bla/foobar.jpg'' (Some ''image/jpg'')
                 (Parsed ''foobar.jpg''))\<lparr>raw := ''new''\<rparr>)
             (world_with [(''/out/foobar.jpg'', ''old'')])))
     = Inr ''foobar.jpg'' \<and>
   files (snd (download_image plain_libs 0 ''http://abc.de/bla/foobar.jpg'' ''/out''
          (serving ''http://abc.de/bla/foobar.jpg''
             ((response_of ''http://abc.de/bla/foobar.jpg'' (Some ''image/jpg'')
                 (Parsed ''foobar.jpg''))\<lparr>raw := ''new''\<rparr>)
             (world_with [(''/out/foobar.jpg'', ''old'')]))))
     = [''/out/foobar.jpg'' \<mapsto> ''old'', ''/out/foobar_1.jpg'' \<mapsto> ''new''] \<and>
   last (log (snd (download_image plain_libs 0 ''http://abc.de/bla/foobar.jpg'' ''/out''
          (serving ''http://abc.de/bla/foobar.jpg''
             ((response_of ''http://abc.de/bla/foobar.jpg'' (Some ''image/jpg'')
                 (Parsed ''foobar.jpg''))\<lparr>raw := ''new''\<rparr>)
             (world_with [(''/out/foobar.jpg'', ''old'')])))))
     = Debug (''Saved '' @ repr ''foobar_1.jpg'')"
proof -
  let ?url = "''http://abc.de/bla/foobar.jpg''"
  let ?r = "(response_of ?url (Some ''image/jpg'') (Parsed ''foobar.jpg''))\<lparr>raw := ''new''\<rparr>"
  let ?w = "serving ?url ?r (world_with [(''/out/foobar.jpg'', ''old'')])"
  define w2 where "w2 = snd (get_session 0 (logger (Debug (''Requesting '' @ repr ?url)) ?w))"
  have f: "files w2 = [''/out/foobar.jpg'' \<mapsto> ''old'']" "dirs w2 = {''/tmp'', ''/out''}"
    by (simp_all add: w2_def get_session_frame logger_frame serving_def world_with_def)
  have a1: "http ?w ?url = Inr ?r" by (simp add: serving_def)
  have a2: "raise_for_status ?r = Inr ()" by (simp add: raise_for_status_def response_of_def)
  have a3: "partition_str CHR ''/'' (declared_type ?r) = (''image'', ''jpg'')"
    by (simp add: declared_type_def response_of_def split_first_def partition_str_def)
  have a4: "get_filename plain_libs ?r ''jpg'' w2 = (Inr ''foobar.jpg'', w2)"
    by (simp add: get_filename_def response_of_def filename_sanitized_def safe_aliases_def
      rsplit_last_def lower_examples startswith_def endswith_def basename_def lstrip_char_def Let_def)
  have a5: "sanitize_filename plain_libs ''foobar.jpg'' = Inr ''foobar.jpg''"
    by (simp add: plain_libs_def)
  have j: "path_join ''/out'' ''foobar.jpg'' = ''/out/foobar.jpg''"
    by (simp add: path_join_def startswith_def endswith_def)
  have n: "numbered ''/out/foobar.jpg'' 1 = ''/out/foobar_1.jpg''"
    using numbered_in_directory [of "''/out''" "''foobar''" "''jpg''" 1] by (simp add: str_nat_1)
  have "path_exists w2 ''/out/foobar.jpg''" "\<not> path_exists w2 (numbered ''/out/foobar.jpg'' 1)"
    unfolding n by (simp_all add: path_exists_def f)
  from rename_if_exists_first_free [OF this]
  have a6: "rename_if_exists (path_join ''/out'' ''foobar.jpg'') w2 = (''/out/foobar_1.jpg'', w2)"
    unfolding j n .
  have "dirname ''/out/foobar_1.jpg'' = ''/out''"
    using dirname_dir [of "''foobar_1.jpg''" "''/out''"] by simp
  then have a7: "open_wb ''/out/foobar_1.jpg'' w2 = Inr ()"
    by (simp add: open_wb_def f)
  have b: "basename ''/out/foobar_1.jpg'' = ''foobar_1.jpg''"
    using basename_dir [of "''foobar_1.jpg''" "''/out''"] by simp
  have "download_image plain_libs 0 ?url ''/out'' ?w =
           (Inr ''foobar.jpg'',
            logger (Debug (''Saved '' @ repr (basename ''/out/foobar_1.jpg'')))
              (w2\<lparr>files := (files w2)(''/out/foobar_1.jpg'' \<mapsto> raw ?r)\<rparr>))"
    using a1 a2 a3 _ w2_def a4 a5 a6 a7 by (rule download_image_success) simp
  then show ?thesis
    by (simp add: b f logger_def response_of_def)
qed

theorem download_image_returns_name_before_renaming_witness:
  "fst (download_image plain_libs 0 ''http://abc.de/bla/foobar.jpg'' ''/out''
          (serving ''http://abc.de/bla/foobar.jpg''
             ((response_of ''http://abc.de/bla/foobar.jpg'' (Some ''image/jpg'')
                 (Parsed ''foobar.jpg''))\<lparr>raw := ''new''\<rparr>)
             (world_with [(''/out/foobar.jpg'', ''old'')])))
     \<noteq> Inr ''foobar_1.jpg'' \<and>
   files (snd (download_image plain_libs 0 ''http://abc.de/bla/foobar.jpg'' ''/out''
          (serving ''http://abc.de/bla/foobar.jpg''
             ((response_of ''http://abc.de/bla/foobar.jpg'' (Some ''image/jpg'')
                 (Parsed ''foobar.jpg''))\<lparr>raw := ''new''\<rparr>)
             (world_with [(''/out/foobar.jpg'', ''old'')])))) ''/out/foobar_1.jpg''
     = Some ''new''"
  using download_image_returns_name_before_renaming by simp

section \<open>Facts about \<open>download_manager\<close>\<close>

lemma count_errors_result:
  "count_errors fs c w = (c + int (length (errors_of fs)), w\<lparr>log := log w @ map Error (errors_of fs)\<rparr>)"
  by (induction fs c w rule: count_errors.induct) (simp_all add: logger_def)

lemma errors_of_length: "length (errors_of fs) \<le> length fs"
  by (induction fs rule: errors_of.induct) simp_all

lemma errors_of_mset: "mset fs = mset gs \<Longrightarrow> length (errors_of fs) = length (errors_of gs)"
proof -
  have "length (errors_of hs) = size (filter_mset isl (mset hs))" for hs :: "(error + string) list"
    by (induction hs rule: errors_of.induct) simp_all
  then show "mset fs = mset gs \<Longrightarrow> length (errors_of fs) = length (errors_of gs)" by simp
qed

lemma submit_all_length: "length (fst (submit_all dl worker out_dir i urls w)) = length urls"
  by (induction urls arbitrary: i w) (simp_all add: split_beta Let_def)

lemma submit_all_nth:
  "k < length urls \<Longrightarrow>
   fst (submit_all dl worker out_dir i urls w) ! k =
     fst (dl (worker (i + k)) (urls ! k) out_dir (snd (submit_all dl worker out_dir i (take k urls) w)))"
proof (induction urls arbitrary: i w k)
  case Nil
  then show ?case by simp
next
  case (Cons u us)
  show ?case
  proof (cases k)
    case 0
    then show ?thesis by (simp add: split_beta Let_def)
  next
    case (Suc j)
    with Cons.prems have "j < length us" by simp
    from Cons.IH [OF this, of "Suc i" "snd (dl (worker i) u out_dir w)"] Suc
    show ?thesis by (simp add: split_beta Let_def)
  qed
qed

lemma ThreadPoolExecutor_ok:
  "max_workers = None \<or> (\<exists>n>0. max_workers = Some n) \<Longrightarrow>
   \<exists>pool. ThreadPoolExecutor dw (if pm < 3 \<and> max_workers = None then Some 10 else max_workers) = Inr pool"
  by (auto simp: ThreadPoolExecutor_def)

lemma download_manager_runs:
  assumes "open_url_file url_file w = Inr ls" "out_dir \<in> dirs w"
    "ThreadPoolExecutor dw (if pm < 3 \<and> mw = None then Some 10 else mw) = Inr pool"
    "urls = map strip (filter (\<lambda>line. strip line \<noteq> []) ls)"
    "submit_all dl worker out_dir 0 urls w = (fs, w1)"
  shows "download_manager dl worker pm dw url_file out_dir mw w =
           (Inr \<lparr>success = int (length urls) - int (length (errors_of fs)),
                  failed = int (length (errors_of fs)),
                  total = int (length urls)\<rparr>,
            w1\<lparr>log := log w1 @ map Error (errors_of fs)\<rparr>)"
proof -
  have l: "length fs = length urls"
    using submit_all_length [of dl worker out_dir 0 urls w] assms(5) by simp
  show ?thesis
    unfolding download_manager_def assms(1) sum.case Let_def assms(3)
    using assms(2) assms(5) [unfolded assms(4)] l [unfolded assms(4)]
    by (simp add: count_errors_result assms(4))
qed


lemma url_list_urls:
  "map strip (filter (\<lambda>line. strip line \<noteq> []) url_list)
     = [''success'', ''success'', ''raise'', ''raise'', ''success'']"
  by (simp add: url_list_def newline_def strip_def isspace_def)


section \<open>C1: the statistics of \<open>download_manager\<close>\<close>



section \<open>C9: an output directory that does not exist\<close>

text \<open>
  Claim C9. When \<open>out_dir\<close> is not an existing directory, \<open>download_manager\<close> raises an
  error and leaves the world as it was: nothing is requested, written or logged, and
  the result does not depend on \<open>download_image\<close>, which is never called. When the input
  can be read, the error is the \<open>ValueError\<close> for the invalid output directory.
\<close>

theorem download_manager_invalid_out_dir:
  "out_dir \<notin> dirs w \<longrightarrow>
     (\<exists>e. download_manager dl worker pm dw url_file out_dir mw w = (Inl e, w)
        \<and> (\<forall>ls. open_url_file url_file w = Inr ls \<longrightarrow>
              e = ValueError [''Invalid output directory %r'', out_dir])
        \<and> (\<forall>dl'. download_manager dl' worker pm dw url_file out_dir mw w = (Inl e, w)))"
  by (cases "open_url_file url_file w") (simp_all add: download_manager_def)

theorem download_manager_invalid_out_dir_witness:
  "''/nowhere'' \<notin> dirs (world_with []) \<and>
   download_manager (download_image plain_libs) (\<lambda>i. 0) 3 5 (FileObject url_list) ''/nowhere''
        (Some 2) (world_with [])
     = (Inl (ValueError [''Invalid output directory %r'', ''/nowhere'']), world_with [])"
proof -
  let ?w = "world_with []"
  have h: "''/nowhere'' \<notin> dirs ?w" by (simp add: world_with_def)
  have o: "open_url_file (FileObject url_list) ?w = Inr url_list"
    by (simp add: open_url_file_def)
  from download_manager_invalid_out_dir [of "''/nowhere''" ?w "download_image plain_libs"
      "\<lambda>i. 0" 3 5 "FileObject url_list" "Some 2"] h o
  show ?thesis by auto
qed

section \<open>The run of the tasks\<close>

lemma submit_all_snd_step:
  "k < length urls \<Longrightarrow>
   snd (submit_all dl worker out_dir i (take (Suc k) urls) w) =
     snd (dl (worker (i + k)) (urls ! k) out_dir (snd (submit_all dl worker out_dir i (take k urls) w)))"
proof (induction urls arbitrary: i w k)
  case Nil
  then show ?case by simp
next
  case (Cons u us)
  show ?case
  proof (cases k)
    case 0
    then show ?thesis by (simp add: split_beta Let_def)
  next
    case (Suc j)
    with Cons.prems have "j < length us" by simp
    from Cons.IH [OF this, of "Suc i" "snd (dl (worker i) u out_dir w)"] Suc
    show ?thesis by (simp add: split_beta Let_def)
  qed
qed

lemma download_manager_chain:
  assumes "open_url_file url_file w = Inr ls" "out_dir \<in> dirs w"
    "ThreadPoolExecutor dw (if pm < 3 \<and> mw = None then Some 10 else mw) = Inr pool"
    "urls = map strip (filter (\<lambda>line. strip line \<noteq> []) ls)"
  shows "\<exists>stats w' ws fs.
           download_manager dl worker pm dw url_file out_dir mw w = (Inr stats, w')
         \<and> length ws = Suc (length urls) \<and> length fs = length urls \<and> ws ! 0 = w
         \<and> (\<forall>k < length urls.
               dl (worker k) (urls ! k) out_dir (ws ! k) = (fs ! k, ws ! Suc k))
         \<and> total stats = int (length urls)
         \<and> failed stats = int (length (errors_of fs))
         \<and> w'\<lparr>log := []\<rparr> = (ws ! length urls)\<lparr>log := []\<rparr>
         \<and> mset (log w') = mset (log (ws ! length urls)) + mset (map Error (errors_of fs))"
proof -
  obtain fs w1 where s: "submit_all dl worker out_dir 0 urls w = (fs, w1)"
    by (rule prod.exhaust)
  define ws where
    "ws = map (\<lambda>k. snd (submit_all dl worker out_dir 0 (take k urls) w)) [0..<Suc (length urls)]"
  have n: "ws ! k = snd (submit_all dl worker out_dir 0 (take k urls) w)" if "k \<le> length urls" for k
    using that unfolding ws_def by (subst nth_map_upt) simp_all
  have l: "length fs = length urls"
    using submit_all_length [of dl worker out_dir 0 urls w] s by simp
  have z: "ws ! 0 = w" using n [of 0] by simp
  have e: "ws ! length urls = w1" using n [of "length urls"] s by simp
  have c: "dl (worker k) (urls ! k) out_dir (ws ! k) = (fs ! k, ws ! Suc k)" if "k < length urls" for k
  proof -
    have "fs ! k = fst (dl (worker k) (urls ! k) out_dir (ws ! k))"
      using submit_all_nth [OF that, of dl worker out_dir 0 w] s n [of k] that by simp
    moreover have "ws ! Suc k = snd (dl (worker k) (urls ! k) out_dir (ws ! k))"
      using submit_all_snd_step [OF that, of dl worker out_dir 0 w] n [of k] n [of "Suc k"] that
      by simp
    ultimately show ?thesis by simp
  qed
  note r = download_manager_runs [OF assms(1,2,3,4) s]
  show ?thesis
    apply (rule exI [of _ "\<lparr>success = int (length urls) - int (length (errors_of fs)),
                  failed = int (length (errors_of fs)), total = int (length urls)\<rparr>"])
    apply (rule exI [of _ "w1\<lparr>log := log w1 @ map Error (errors_of fs)\<rparr>"])
    apply (rule exI [of _ ws])
    apply (rule exI [of _ fs])
    using r l z e c by (simp add: ws_def)
qed

lemma download_image_request_fails:
  assumes "http w url = Inl e"
  shows "download_image L thread url out_dir w =
           (Inl e, snd (get_session thread (logger (Debug (''Requesting '' @ repr url)) w)))"
proof -
  define w2 where "w2 = snd (get_session thread (logger (Debug (''Requesting '' @ repr url)) w))"
  have h: "http w2 url = Inl e"
    using assms by (simp add: w2_def get_session_frame logger_frame)
  obtain s where g: "get_session thread (logger (Debug (''Requesting '' @ repr url)) w) = (s, w2)"
    using w2_def by (metis prod.collapse)
  have "download_image L thread url out_dir w = (Inl e, w2)"
    unfolding download_image_def Let_def g split_conv h sum.case by simp
  then show ?thesis unfolding w2_def .
qed

lemma rename_if_exists_free: "\<not> path_exists w p \<Longrightarrow> rename_if_exists p w = (p, w)"
  unfolding rename_if_exists_def by (simp only: simp_thms if_True)

lemma list_of_two: "length xs = 2 \<Longrightarrow> xs = [xs ! 0, xs ! 1]"
  by (cases xs; cases "tl xs") auto

section \<open>C2: failures of tasks stay inside \<open>download_manager\<close>\<close>

text \<open>
  Claim C2. With a readable input, an existing output directory and a number of workers
  that is absent or positive, \<open>download_manager\<close> returns normally whatever the tasks
  do. Every scheduled task runs: there are worlds \<open>ws\<close> and outcomes \<open>fs\<close>, one outcome per
  URL, such that the first world is the one the manager started in and task \<open>k\<close> is
  \<open>download_image\<close> run on URL \<open>k\<close> in world \<open>k\<close>, giving outcome \<open>k\<close> and world \<open>k + 1\<close>,
  whether the tasks before it failed or not. \<open>failed\<close> is the number of errors among the
  outcomes. The world the manager returns is the last of these worlds but for the log,
  and its log holds the records of the tasks and one error record for each failure.
\<close>

theorem download_manager_absorbs_failures:
  "open_url_file url_file w = Inr ls \<and> out_dir \<in> dirs w
     \<and> (mw = None \<or> (\<exists>n>0. mw = Some n))
     \<and> urls = map strip (filter (\<lambda>line. strip line \<noteq> []) ls) \<longrightarrow>
   (\<exists>stats w' ws fs.
       download_manager dl worker pm dw url_file out_dir mw w = (Inr stats, w')
     \<and> length ws = Suc (length urls) \<and> length fs = length urls \<and> ws ! 0 = w
     \<and> (\<forall>k < length urls.
           dl (worker k) (urls ! k) out_dir (ws ! k) = (fs ! k, ws ! Suc k))
     \<and> total stats = int (length urls)
     \<and> failed stats = int (length (errors_of fs))
     \<and> w'\<lparr>log := []\<rparr> = (ws ! length urls)\<lparr>log := []\<rparr>
     \<and> mset (log w') = mset (log (ws ! length urls)) + mset (map Error (errors_of fs)))"
proof
  assume a: "open_url_file url_file w = Inr ls \<and> out_dir \<in> dirs w
     \<and> (mw = None \<or> (\<exists>n>0. mw = Some n))
     \<and> urls = map strip (filter (\<lambda>line. strip line \<noteq> []) ls)"
  then obtain pool where
    p: "ThreadPoolExecutor dw (if pm < 3 \<and> mw = None then Some 10 else mw) = Inr pool"
    using ThreadPoolExecutor_ok [of mw dw pm] by blast
  from a have o: "open_url_file url_file w = Inr ls" and d: "out_dir \<in> dirs w"
    and u: "urls = map strip (filter (\<lambda>line. strip line \<noteq> []) ls)" by blast+
  show "\<exists>stats w' ws fs.
       download_manager dl worker pm dw url_file out_dir mw w = (Inr stats, w')
     \<and> length ws = Suc (length urls) \<and> length fs = length urls \<and> ws ! 0 = w
     \<and> (\<forall>k < length urls.
           dl (worker k) (urls ! k) out_dir (ws ! k) = (fs ! k, ws ! Suc k))
     \<and> total stats = int (length urls)
     \<and> failed stats = int (length (errors_of fs))
     \<and> w'\<lparr>log := []\<rparr> = (ws ! length urls)\<lparr>log := []\<rparr>
     \<and> mset (log w') = mset (log (ws ! length urls)) + mset (map Error (errors_of fs))"
    by (rule download_manager_chain [OF o d p u])
qed

theorem download_manager_absorbs_failures_witness:
  "\<exists>stats w'.
      download_manager (download_image plain_libs) (\<lambda>i. 0) 3 5
        (FileObject [''http://nonexistent.de/image.png'', ''http://abc.de/bla/foobar.jpg''])
        ''/out'' None
        (serving ''http://abc.de/bla/foobar.jpg''
           ((response_of ''http://abc.de/bla/foobar.jpg'' (Some ''image/jpg'')
               (Parsed ''foobar.jpg''))\<lparr>raw := ''new''\<rparr>)
           (world_with []))
        = (Inr stats, w')
    \<and> failed stats = 1 \<and> total stats = 2
    \<and> files w' ''/out/foobar.jpg'' = Some ''new''
    \<and> Error (RequestException ''http://nonexistent.de/image.png'') \<in># mset (log w')"
proof -
  let ?u1 = "''http://nonexistent.de/image.png''"
  let ?u2 = "''http://abc.de/bla/foobar.jpg''"
  let ?r = "(response_of ?u2 (Some ''image/jpg'') (Parsed ''foobar.jpg''))\<lparr>raw := ''new''\<rparr>"
  let ?w = "serving ?u2 ?r (world_with [])"
  let ?dl = "download_image plain_libs"
  define w1 where "w1 = snd (get_session 0 (logger (Debug (''Requesting '' @ repr ?u1)) ?w))"
  define w2 where "w2 = snd (get_session 0 (logger (Debug (''Requesting '' @ repr ?u2)) w1))"
  define w3 where "w3 = logger (Debug (''Saved '' @ repr (basename ''/out/foobar.jpg'')))
              (w2\<lparr>files := (files w2)(''/out/foobar.jpg'' \<mapsto> raw ?r)\<rparr>)"
  have t1: "?dl 0 ?u1 ''/out'' ?w = (Inl (RequestException ?u1), w1)"
    unfolding w1_def by (rule download_image_request_fails) (simp add: serving_def world_with_def)
  have f1: "http w1 = http ?w" "files w1 = Map.empty" "dirs w1 = {''/tmp'', ''/out''}"
    by (simp_all add: w1_def get_session_frame logger_frame serving_def world_with_def)
  have f2: "files w2 = Map.empty" "dirs w2 = {''/tmp'', ''/out''}"
    by (simp_all add: w2_def get_session_frame logger_frame f1)
  have a1: "http w1 ?u2 = Inr ?r" by (simp add: f1 serving_def)
  have a2: "raise_for_status ?r = Inr ()" by (simp add: raise_for_status_def response_of_def)
  have a3: "partition_str CHR ''/'' (declared_type ?r) = (''image'', ''jpg'')"
    by (simp add: declared_type_def response_of_def split_first_def partition_str_def)
  have a4: "get_filename plain_libs ?r ''jpg'' w2 = (Inr ''foobar.jpg'', w2)"
    by (simp add: get_filename_def response_of_def filename_sanitized_def safe_aliases_def
      rsplit_last_def lower_examples startswith_def endswith_def basename_def lstrip_char_def Let_def)
  have a5: "sanitize_filename plain_libs ''foobar.jpg'' = Inr ''foobar.jpg''"
    by (simp add: plain_libs_def)
  have j: "path_join ''/out'' ''foobar.jpg'' = ''/out/foobar.jpg''"
    by (simp add: path_join_def startswith_def endswith_def)
  have "\<not> path_exists w2 ''/out/foobar.jpg''" by (simp add: path_exists_def f2)
  from rename_if_exists_free [OF this]
  have a6: "rename_if_exists (path_join ''/out'' ''foobar.jpg'') w2 = (''/out/foobar.jpg'', w2)"
    unfolding j .
  have "dirname ''/out/foobar.jpg'' = ''/out''"
    using dirname_dir [of "''foobar.jpg''" "''/out''"] by simp
  then have a7: "open_wb ''/out/foobar.jpg'' w2 = Inr ()"
    by (simp add: open_wb_def f2)
  have t2: "?dl 0 ?u2 ''/out'' w1 = (Inr ''foobar.jpg'', w3)"
    unfolding w3_def using a1 a2 a3 _ w2_def a4 a5 a6 a7 by (rule download_image_success) simp
  have f3: "files w3 ''/out/foobar.jpg'' = Some ''new''"
    by (simp add: w3_def logger_def response_of_def)
  have h: "open_url_file (FileObject [?u1, ?u2]) ?w = Inr [?u1, ?u2] \<and> ''/out'' \<in> dirs ?w
     \<and> ((None :: int option) = None \<or> (\<exists>n>0. (None :: int option) = Some n))
     \<and> [?u1, ?u2] = map strip (filter (\<lambda>line. strip line \<noteq> []) [?u1, ?u2])"
  proof (intro conjI)
    show "open_url_file (FileObject [?u1, ?u2]) ?w = Inr [?u1, ?u2]"
      by (simp add: open_url_file_def)
    show "''/out'' \<in> dirs ?w" by (simp add: serving_def world_with_def)
    show "(None :: int option) = None \<or> (\<exists>n>0. (None :: int option) = Some n)" by simp
    show "[?u1, ?u2] = map strip (filter (\<lambda>line. strip line \<noteq> []) [?u1, ?u2])"
      by (simp add: strip_def isspace_def)
  qed
  from download_manager_absorbs_failures [of "FileObject [?u1, ?u2]" ?w "[?u1, ?u2]" "''/out''" None
      "[?u1, ?u2]" ?dl "\<lambda>i. 0" 3 5, THEN mp, OF h]
  obtain stats w' ws fs where
    r: "download_manager ?dl (\<lambda>i. 0) 3 5 (FileObject [?u1, ?u2]) ''/out'' None ?w = (Inr stats, w')"
    and lf: "length fs = length [?u1, ?u2]" and z: "ws ! 0 = ?w"
    and c: "\<forall>k < length [?u1, ?u2].
           ?dl ((\<lambda>i. 0) k) ([?u1, ?u2] ! k) ''/out'' (ws ! k) = (fs ! k, ws ! Suc k)"
    and t: "total stats = int (length [?u1, ?u2])"
    and f: "failed stats = int (length (errors_of fs))"
    and e: "w'\<lparr>log := []\<rparr> = (ws ! length [?u1, ?u2])\<lparr>log := []\<rparr>"
    and m: "mset (log w') = mset (log (ws ! length [?u1, ?u2])) + mset (map Error (errors_of fs))"
    by blast
  from c [rule_format, of 0] have "?dl 0 ?u1 ''/out'' (ws ! 0) = (fs ! 0, ws ! Suc 0)" by simp
  with z t1 have k0: "fs ! 0 = Inl (RequestException ?u1)" "ws ! 1 = w1" by simp_all
  from c [rule_format, of 1] have "?dl 0 ?u2 ''/out'' (ws ! 1) = (fs ! 1, ws ! Suc 1)" by simp
  with k0(2) t2 have k1: "fs ! 1 = Inr ''foobar.jpg''" "ws ! Suc (Suc 0) = w3"
    by simp_all
  have "fs = [fs ! 0, fs ! 1]" using lf by (intro list_of_two) simp
  then have fs: "fs = [Inl (RequestException ?u1), Inr ''foobar.jpg'']"
    using k0(1) k1(1) by simp
  have "failed stats = 1" using f unfolding fs by simp
  moreover have "total stats = 2" using t by simp
  moreover have "files w' ''/out/foobar.jpg'' = Some ''new''"
  proof -
    have "files w' = files (w'\<lparr>log := []\<rparr>)" by simp
    also have "\<dots> = files (w3\<lparr>log := []\<rparr>)" using e k1(2) by simp
    finally show ?thesis using f3 by simp
  qed
  moreover have "Error (RequestException ?u1) \<in># mset (log w')"
    unfolding m fs by simp
  ultimately show ?thesis using r by blast
qed

section \<open>C7: the number of workers\<close>

text \<open>
  Claim C7, as amended. With a readable input and an existing output directory, an absent
  \<open>max_workers\<close> never makes \<open>download_manager\<close> fail: every task is scheduled and run,
  one after the other as for claim C2, and the statistics are returned. A value that is
  not positive is not replaced by a default: the constructor of the executor refuses it
  with a \<open>ValueError\<close>, which \<open>download_manager\<close> raises before any task is scheduled,
  leaving the world as it was.
\<close>

theorem download_manager_workers:
  "open_url_file url_file w = Inr ls \<and> out_dir \<in> dirs w
     \<and> urls = map strip (filter (\<lambda>line. strip line \<noteq> []) ls) \<longrightarrow>
   (\<exists>stats w' ws fs.
       download_manager dl worker pm dw url_file out_dir None w = (Inr stats, w')
     \<and> length ws = Suc (length urls) \<and> length fs = length urls \<and> ws ! 0 = w
     \<and> (\<forall>k < length urls.
           dl (worker k) (urls ! k) out_dir (ws ! k) = (fs ! k, ws ! Suc k))
     \<and> total stats = int (length urls)
     \<and> failed stats = int (length (errors_of fs))
     \<and> w'\<lparr>log := []\<rparr> = (ws ! length urls)\<lparr>log := []\<rparr>) \<and>
   (\<forall>n \<le> 0. download_manager dl worker pm dw url_file out_dir (Some n) w
               = (Inl (ValueError [''max_workers must be greater than 0'']), w))"
proof (intro impI conjI allI)
  assume a: "open_url_file url_file w = Inr ls \<and> out_dir \<in> dirs w
     \<and> urls = map strip (filter (\<lambda>line. strip line \<noteq> []) ls)"
  obtain pool where
    p: "ThreadPoolExecutor dw (if pm < 3 \<and> (None :: int option) = None then Some 10 else None) = Inr pool"
    using ThreadPoolExecutor_ok [of None dw pm] by blast
  from a have o: "open_url_file url_file w = Inr ls" and d: "out_dir \<in> dirs w"
    and u: "urls = map strip (filter (\<lambda>line. strip line \<noteq> []) ls)" by blast+
  from download_manager_chain [OF o d p u, of dl worker]
  show "\<exists>stats w' ws fs.
       download_manager dl worker pm dw url_file out_dir None w = (Inr stats, w')
     \<and> length ws = Suc (length urls) \<and> length fs = length urls \<and> ws ! 0 = w
     \<and> (\<forall>k < length urls.
           dl (worker k) (urls ! k) out_dir (ws ! k) = (fs ! k, ws ! Suc k))
     \<and> total stats = int (length urls)
     \<and> failed stats = int (length (errors_of fs))
     \<and> w'\<lparr>log := []\<rparr> = (ws ! length urls)\<lparr>log := []\<rparr>"
    by blast
next
  fix n :: int
  assume a: "open_url_file url_file w = Inr ls \<and> out_dir \<in> dirs w
     \<and> urls = map strip (filter (\<lambda>line. strip line \<noteq> []) ls)" and n: "n \<le> 0"
  then show "download_manager dl worker pm dw url_file out_dir (Some n) w
                  = (Inl (ValueError [''max_workers must be greater than 0'']), w)"
    by (simp add: download_manager_def ThreadPoolExecutor_def)
qed

theorem download_manager_workers_witness:
  "(\<exists>stats w'. download_manager download_image_mock (\<lambda>i. 0) 3 5 (FileObject url_list) ''/tmp''
        None (world_with []) = (Inr stats, w') \<and> total stats = 5) \<and>
   download_manager download_image_mock (\<lambda>i. 0) 3 5 (FileObject url_list) ''/tmp''
        (Some (- 1)) (world_with [])
     = (Inl (ValueError [''max_workers must be greater than 0'']), world_with [])"
proof -
  let ?w = "world_with []"
  let ?urls = "[''success'', ''success'', ''raise'', ''raise'', ''success'']"
  have h: "open_url_file (FileObject url_list) ?w = Inr url_list \<and> ''/tmp'' \<in> dirs ?w
     \<and> ?urls = map strip (filter (\<lambda>line. strip line \<noteq> []) url_list)"
  proof (intro conjI)
    show "open_url_file (FileObject url_list) ?w = Inr url_list"
      by (simp add: open_url_file_def)
    show "''/tmp'' \<in> dirs ?w" by (simp add: world_with_def)
    show "?urls = map strip (filter (\<lambda>line. strip line \<noteq> []) url_list)"
      by (simp only: url_list_urls)
  qed
  note t = download_manager_workers [of "FileObject url_list" ?w url_list "''/tmp''" ?urls
      download_image_mock "\<lambda>i. 0" 3 5, THEN mp, OF h]
  from t obtain stats w' where
    "download_manager download_image_mock (\<lambda>i. 0) 3 5 (FileObject url_list) ''/tmp''
        None ?w = (Inr stats, w')" "total stats = int (length ?urls)" by blast
  then have "\<exists>stats w'. download_manager download_image_mock (\<lambda>i. 0) 3 5 (FileObject url_list)
        ''/tmp'' None ?w = (Inr stats, w') \<and> total stats = 5"
    by (intro exI [of _ stats] exI [of _ w']) simp
  moreover from t have "download_manager download_image_mock (\<lambda>i. 0) 3 5 (FileObject url_list)
        ''/tmp'' (Some (- 1)) ?w
     = (Inl (ValueError [''max_workers must be greater than 0'']), ?w)" by simp
  ultimately show ?thesis by (rule conjI)
qed

text \<open>The claim as stated fails at \<open>max_workers = 0\<close>: the manager raises.\<close>

theorem download_manager_zero_workers_counterexample:
  "fst (download_manager download_image_mock (\<lambda>i. 0) 3 5 (FileObject url_list) ''/tmp''
        (Some 0) (world_with []))
     = Inl (ValueError [''max_workers must be greater than 0''])"
  by (simp add: download_manager_def ThreadPoolExecutor_def open_url_file_def world_with_def)

end
